theory Spec2Isabelle
  imports Main "HOL-Library.Word" "HOL-Library.Sublist"
begin

section \<open>JavaScript strings\<close>

text \<open>
  A JavaScript string is a sequence of UTF-16 code units, and every operation the
  component uses (\<^verbatim>\<open>split\<close>, \<^verbatim>\<open>trim\<close>, \<^verbatim>\<open>replace\<close> and \<^verbatim>\<open>match\<close> with
  regular expressions that carry no \<^verbatim>\<open>u\<close> flag) works on code units. A string is
  therefore a list of 16-bit words; \<open>js\<close> writes an ASCII literal as such a list.
\<close>

type_synonym jsstring = "16 word list"

definition js :: "string \<Rightarrow> jsstring" where
  "js s = map of_char s"

text \<open>
  The ECMAScript character classes the source relies on: \<^verbatim>\<open>.\<close> matches every code
  unit that is not a line terminator; \<^verbatim>\<open>\s\<close> and \<^verbatim>\<open>trim\<close> share one set (white
  space and line terminators); \<^verbatim>\<open>\d\<close> is an ASCII digit.
\<close>

definition isLineTerminator :: "16 word \<Rightarrow> bool" where
  "isLineTerminator c \<longleftrightarrow> c = 0x000A \<or> c = 0x000D \<or> c = 0x2028 \<or> c = 0x2029"

definition isWhiteSpace :: "16 word \<Rightarrow> bool" where
  "isWhiteSpace c \<longleftrightarrow>
     c = 0x0009 \<or> c = 0x000B \<or> c = 0x000C \<or> c = 0x0020 \<or> c = 0x00A0 \<or> c = 0x1680 \<or>
     (0x2000 \<le> c \<and> c \<le> 0x200A) \<or> c = 0x202F \<or> c = 0x205F \<or> c = 0x3000 \<or> c = 0xFEFF \<or>
     isLineTerminator c"

definition isDigit :: "16 word \<Rightarrow> bool" where
  "isDigit c \<longleftrightarrow> 0x0030 \<le> c \<and> c \<le> 0x0039"

text \<open>\<^verbatim>\<open>text.split('\n')\<close>: the pieces between the line feeds, in order; the empty
  string gives one empty piece.\<close>

fun split_acc :: "jsstring \<Rightarrow> jsstring \<Rightarrow> jsstring list" where
  "split_acc cur [] = [cur]"
| "split_acc cur (c # cs) =
     (if c = 0x000A then cur # split_acc [] cs else split_acc (cur @ [c]) cs)"

definition split_lines :: "jsstring \<Rightarrow> jsstring list" where
  "split_lines text = split_acc [] text"

text \<open>\<^verbatim>\<open>s.trim()\<close>: white space and line terminators removed at both ends.\<close>

definition trim_js :: "jsstring \<Rightarrow> jsstring" where
  "trim_js s = rev (dropWhile isWhiteSpace (rev (dropWhile isWhiteSpace s)))"

section \<open>The regular expressions of the renderer\<close>

text \<open>
  A match anchored at the head of a string gives the capture groups (\<open>None\<close> for a
  group that did not take part) and the text after the match.
\<close>

type_synonym rmatch = "jsstring option list \<times> jsstring"

text \<open>
  \<^verbatim>\<open>(.*?)d\<close> at the head of \<open>s\<close>, for a literal \<open>d\<close>: the lazy star grows one code unit
  at a time, none of them a line terminator, and stops at the first place where \<open>d\<close>
  follows. The result is the capture and the text after \<open>d\<close>.
\<close>

fun lazy_until :: "jsstring \<Rightarrow> jsstring \<Rightarrow> (jsstring \<times> jsstring) option" where
  "lazy_until d [] = (if d = [] then Some ([], []) else None)"
| "lazy_until d (c # cs) =
     (if prefix d (c # cs) then Some ([], drop (length d) (c # cs))
      else if isLineTerminator c then None
      else (case lazy_until d cs of
              None \<Rightarrow> None
            | Some (cap, rest) \<Rightarrow> Some (c # cap, rest)))"

text \<open>\<^verbatim>\<open>d(.*?)d\<close> at the head of \<open>s\<close>.\<close>

definition match_delim :: "jsstring \<Rightarrow> jsstring \<Rightarrow> (jsstring \<times> jsstring) option" where
  "match_delim d s = (if prefix d s then lazy_until d (drop (length d) s) else None)"

text \<open>\<^verbatim>\<open>/\*\*(.*?)\*\*|__(.*?)__/\<close> at the head of \<open>s\<close>: the left alternative first.\<close>

definition match_bold :: "jsstring \<Rightarrow> rmatch option" where
  "match_bold s =
     (case match_delim (js ''**'') s of
        Some (cap, rest) \<Rightarrow> Some ([Some cap, None], rest)
      | None \<Rightarrow>
         (case match_delim (js ''__'') s of
            Some (cap, rest) \<Rightarrow> Some ([None, Some cap], rest)
          | None \<Rightarrow> None))"

text \<open>\<^verbatim>\<open>/\*(.*?)\*|_(.*?)_/\<close> at the head of \<open>s\<close>.\<close>

definition match_em :: "jsstring \<Rightarrow> rmatch option" where
  "match_em s =
     (case match_delim (js ''*'') s of
        Some (cap, rest) \<Rightarrow> Some ([Some cap, None], rest)
      | None \<Rightarrow>
         (case match_delim (js ''_'') s of
            Some (cap, rest) \<Rightarrow> Some ([None, Some cap], rest)
          | None \<Rightarrow> None))"

text \<open>
  \<^verbatim>\<open>/`([^`]+)`/\<close> at the head of \<open>s\<close>: a backtick, the longest run of code units that
  are not backticks (line terminators included), which must not be empty, and a
  backtick. Giving back part of the run never helps: the next code unit is then not
  a backtick.
\<close>

definition match_code :: "jsstring \<Rightarrow> rmatch option" where
  "match_code s =
     (case s of
        [] \<Rightarrow> None
      | c # cs \<Rightarrow>
         if c = 0x0060 then
           (let body = takeWhile (\<lambda>x. x \<noteq> 0x0060) cs;
                rest = dropWhile (\<lambda>x. x \<noteq> 0x0060) cs
            in if body \<noteq> [] \<and> rest \<noteq> [] then Some ([Some body], tl rest) else None)
         else None)"

text \<open>\<^verbatim>\<open>$n\<close> in a replacement string: the text of group \<open>n\<close>, empty when the group
  did not take part in the match.\<close>

definition group :: "jsstring option list \<Rightarrow> nat \<Rightarrow> jsstring" where
  "group caps n = (case caps ! (n - 1) of Some s \<Rightarrow> s | None \<Rightarrow> [])"

text \<open>
  \<^verbatim>\<open>s.replace(re, replacement)\<close> for a regular expression with the \<^verbatim>\<open>g\<close> flag:
  the matches are looked for from left to right, each search starting where the last
  match ended; a code unit at which nothing matches is copied. After an empty match
  ECMAScript moves on by one code unit, which is the second branch below.
\<close>

fun replace_global ::
  "(jsstring \<Rightarrow> rmatch option) \<Rightarrow> (jsstring option list \<Rightarrow> jsstring) \<Rightarrow> jsstring \<Rightarrow> jsstring" where
  "replace_global m w [] = (case m [] of Some (caps, rest) \<Rightarrow> w caps | None \<Rightarrow> [])"
| "replace_global m w (c # cs) =
     (case m (c # cs) of
        None \<Rightarrow> c # replace_global m w cs
      | Some (caps, rest) \<Rightarrow>
          if length rest < length (c # cs) then w caps @ replace_global m w rest
          else w caps @ c # replace_global m w cs)"

text \<open>The three inline substitutions of the loop body, with their replacement strings.\<close>

definition replace_bold :: "jsstring \<Rightarrow> jsstring" where
  "replace_bold s =
     replace_global match_bold
       (\<lambda>caps. js ''<strong>'' @ group caps 1 @ group caps 2 @ js ''</strong>'') s"

definition replace_em :: "jsstring \<Rightarrow> jsstring" where
  "replace_em s =
     replace_global match_em
       (\<lambda>caps. js ''<em>'' @ group caps 1 @ group caps 2 @ js ''</em>'') s"

definition code_open :: jsstring where
  \<open>code_open = js ''<code class="bg-gem-mist/50 px-1 py-0.5 rounded-sm font-mono text-sm">''\<close>

definition replace_code :: "jsstring \<Rightarrow> jsstring" where
  "replace_code s =
     replace_global match_code (\<lambda>caps. code_open @ group caps 1 @ js ''</code>'') s"

text \<open>
  \<^verbatim>\<open>line.match(/^\s*\d+\.\s(.*)/)\<close>: the value of group 1 when the line matches.
  White space and digits are disjoint, and so are digits and the period, so the greedy
  runs leave nothing to backtrack into.
\<close>

definition matchOl :: "jsstring \<Rightarrow> jsstring option" where
  "matchOl line =
     (let r1 = dropWhile isWhiteSpace line;
          ds = takeWhile isDigit r1;
          r2 = dropWhile isDigit r1
      in if ds = [] then None
         else (case r2 of
                 p # s # r3 \<Rightarrow>
                   if p = 0x002E \<and> isWhiteSpace s
                   then Some (takeWhile (\<lambda>x. \<not> isLineTerminator x) r3) else None
               | _ \<Rightarrow> None))"

text \<open>\<^verbatim>\<open>line.match(/^\s*[\*\-]\s(.*)/)\<close>.\<close>

definition matchUl :: "jsstring \<Rightarrow> jsstring option" where
  "matchUl line =
     (case dropWhile isWhiteSpace line of
        m # s # r3 \<Rightarrow>
          if (m = 0x002A \<or> m = 0x002D) \<and> isWhiteSpace s
          then Some (takeWhile (\<lambda>x. \<not> isLineTerminator x) r3) else None
      | _ \<Rightarrow> None)"

section \<open>renderMarkdown\<close>

datatype list_kind = ul | ol

definition tag :: "list_kind \<Rightarrow> jsstring" where
  "tag t = (case t of ul \<Rightarrow> js ''ul'' | ol \<Rightarrow> js ''ol'')"

text \<open>The three variables of the function body.\<close>

record rstate =
  html :: jsstring
  listType :: "list_kind option"
  paraBuffer :: jsstring

definition init :: rstate where
  "init = \<lparr>html = [], listType = None, paraBuffer = []\<rparr>"

definition para_open :: jsstring where
  \<open>para_open = js ''<p class="my-2">''\<close>

definition ol_open :: jsstring where
  \<open>ol_open = js ''<ol class="list-decimal list-inside my-2 pl-5 space-y-1">''\<close>

definition ul_open :: jsstring where
  \<open>ul_open = js ''<ul class="list-disc list-inside my-2 pl-5 space-y-1">''\<close>

definition flushPara :: "rstate \<Rightarrow> rstate" where
  "flushPara st =
     (if paraBuffer st \<noteq> []
      then st\<lparr>html := html st @ para_open @ paraBuffer st @ js ''</p>'', paraBuffer := []\<rparr>
      else st)"

definition flushList :: "rstate \<Rightarrow> rstate" where
  "flushList st =
     (case listType st of
        Some t \<Rightarrow> st\<lparr>html := html st @ js ''</'' @ tag t @ js ''>'', listType := None\<rparr>
      | None \<Rightarrow> st)"

text \<open>The three chained \<^verbatim>\<open>replace\<close> calls that turn \<^verbatim>\<open>rawLine\<close> into \<^verbatim>\<open>line\<close>.\<close>

definition inline :: "jsstring \<Rightarrow> jsstring" where
  "inline rawLine = replace_code (replace_em (replace_bold rawLine))"

text \<open>The branches of the loop body, on the substituted \<^verbatim>\<open>line\<close>.\<close>

definition olItem :: "rstate \<Rightarrow> jsstring \<Rightarrow> rstate" where
  "olItem st item =
     (let st1 = flushPara st;
          st2 = (if listType st1 \<noteq> Some ol
                 then (let st' = flushList st1
                       in st'\<lparr>html := html st' @ ol_open, listType := Some ol\<rparr>)
                 else st1)
      in st2\<lparr>html := html st2 @ js ''<li>'' @ item @ js ''</li>''\<rparr>)"

definition ulItem :: "rstate \<Rightarrow> jsstring \<Rightarrow> rstate" where
  "ulItem st item =
     (let st1 = flushPara st;
          st2 = (if listType st1 \<noteq> Some ul
                 then (let st' = flushList st1
                       in st'\<lparr>html := html st' @ ul_open, listType := Some ul\<rparr>)
                 else st1)
      in st2\<lparr>html := html st2 @ js ''<li>'' @ item @ js ''</li>''\<rparr>)"

definition plainLine :: "rstate \<Rightarrow> jsstring \<Rightarrow> rstate" where
  "plainLine st line =
     (let st1 = flushList st
      in if trim_js line = [] then flushPara st1
         else st1\<lparr>paraBuffer :=
                paraBuffer st1 @ (if paraBuffer st1 \<noteq> [] then js ''<br/>'' else []) @ line\<rparr>)"

text \<open>One iteration of \<^verbatim>\<open>for (const rawLine of lines)\<close>.\<close>

definition step :: "rstate \<Rightarrow> jsstring \<Rightarrow> rstate" where
  "step st rawLine =
     (let line = inline rawLine;
          isOl = matchOl line;
          isUl = matchUl line
      in case isOl of
           Some item \<Rightarrow> olItem st item
         | None \<Rightarrow>
            (case isUl of
               Some item \<Rightarrow> ulItem st item
             | None \<Rightarrow> plainLine st line))"

text \<open>The loop over the lines followed by the two final flushes.\<close>

definition renderLines :: "jsstring list \<Rightarrow> jsstring" where
  "renderLines lines = html (flushList (flushPara (foldl step init lines)))"

text \<open>The function returns the object \<^verbatim>\<open>{ __html: html }\<close>; the model returns the
  value of its only field.\<close>

definition renderMarkdown :: "jsstring \<Rightarrow> jsstring" where
  "renderMarkdown text = (if text = [] then [] else renderLines (split_lines text))"


section \<open>Notions used to state the properties of the renderer\<close>

text \<open>
  The branch of the loop body that a raw line takes: the ordered-list branch, the
  unordered-list branch, or the last branch with its test \<^verbatim>\<open>line.trim() === ''\<close>.
  The tests are made on \<^verbatim>\<open>line\<close>, the text after the three substitutions.
\<close>

datatype line_class = ListLine list_kind | BlankLine | TextLine

definition lineClass :: "jsstring \<Rightarrow> line_class" where
  "lineClass rawLine =
     (let line = inline rawLine
      in if matchOl line \<noteq> None then ListLine ol
         else if matchUl line \<noteq> None then ListLine ul
         else if trim_js line = [] then BlankLine else TextLine)"

text \<open>\<^verbatim>\<open>isOl[1]\<close>, or \<^verbatim>\<open>isUl[1]\<close> in the second branch: the text of the list entry.\<close>

definition itemText :: "jsstring \<Rightarrow> jsstring" where
  "itemText rawLine =
     (let line = inline rawLine
      in case matchOl line of
           Some item \<Rightarrow> item
         | None \<Rightarrow> (case matchUl line of Some item \<Rightarrow> item | None \<Rightarrow> []))"

definition list_open :: "list_kind \<Rightarrow> jsstring" where
  "list_open t = (case t of ul \<Rightarrow> ul_open | ol \<Rightarrow> ol_open)"

definition list_close :: "list_kind \<Rightarrow> jsstring" where
  "list_close t = js ''</'' @ tag t @ js ''>''"

definition li :: "jsstring \<Rightarrow> jsstring" where
  "li item = js ''<li>'' @ item @ js ''</li>''"

text \<open>The two flushes that end the function, in their order.\<close>

definition closeAll :: "rstate \<Rightarrow> rstate" where
  "closeAll st = flushList (flushPara st)"

text \<open>The lines of one paragraph, with the line-break marker between neighbours.\<close>

fun join_br :: "jsstring list \<Rightarrow> jsstring" where
  "join_br [] = []"
| "join_br [x] = x"
| "join_br (x # y # zs) = x @ js ''<br/>'' @ join_br (y # zs)"



text \<open>The block that is open in a state goes on with the next line.\<close>

definition continues :: "rstate \<Rightarrow> jsstring \<Rightarrow> bool" where
  "continues st l \<longleftrightarrow>
     (\<exists>t. listType st = Some t \<and> lineClass l = ListLine t) \<or>
     (paraBuffer st \<noteq> [] \<and> lineClass l = TextLine)"

text \<open>No block goes on across the place where a list of lines is cut in two.\<close>

definition boundary :: "jsstring list \<Rightarrow> jsstring list \<Rightarrow> bool" where
  "boundary pre post \<longleftrightarrow>
     pre = [] \<or> post = [] \<or> lineClass (hd post) = BlankLine \<or>
     lineClass (last pre) \<noteq> lineClass (hd post)"

text \<open>A list is open or a paragraph is pending, never both.\<close>

definition exclusive :: "rstate \<Rightarrow> bool" where
  "exclusive st \<longleftrightarrow> listType st = None \<or> paraBuffer st = []"

section \<open>The suggestion effect\<close>

text \<open>
  The effect closes over the list it was run with and over its counter
  \<^verbatim>\<open>suggestionIndex\<close>; both live as long as the interval it starts.
\<close>

record interval =
  questions :: "jsstring list"
  suggestionIndex :: nat

text \<open>
  The component as far as the effect touches it: the state \<^verbatim>\<open>currentSuggestion\<close>,
  the pending intervals by their id, the id \<^verbatim>\<open>setInterval\<close> gives next, and the
  interval that the cleanup function returned by the last run of the effect clears
  (\<open>None\<close> when that run returned nothing).
\<close>

record component =
  currentSuggestion :: jsstring
  intervals :: "nat \<rightharpoonup> interval"
  nextId :: nat
  cleanup :: "nat option"

text \<open>\<^verbatim>\<open>useState('')\<close>, nothing pending.\<close>

definition fresh :: component where
  "fresh = \<lparr>currentSuggestion = [], intervals = Map.empty, nextId = 0, cleanup = None\<rparr>"

definition clearInterval :: "nat \<Rightarrow> component \<Rightarrow> component" where
  "clearInterval i c = c\<lparr>intervals := (intervals c)(i := None)\<rparr>"

text \<open>The body of the effect, run with the list \<^verbatim>\<open>exampleQuestions\<close>.\<close>

definition suggestionEffect :: "jsstring list \<Rightarrow> component \<Rightarrow> component" where
  "suggestionEffect exampleQuestions c =
     (if length exampleQuestions = 0
      then c\<lparr>currentSuggestion := [], cleanup := None\<rparr>
      else (let c1 = c\<lparr>currentSuggestion := exampleQuestions ! 0\<rparr>;
                intervalId = nextId c1
            in c1\<lparr>intervals := (intervals c1)(intervalId \<mapsto>
                       \<lparr>questions = exampleQuestions, suggestionIndex = 0\<rparr>),
                  nextId := Suc intervalId,
                  cleanup := Some intervalId\<rparr>))"

text \<open>The interval callback; an interval that is not pending does not fire.\<close>

definition tick :: "nat \<Rightarrow> component \<Rightarrow> component" where
  "tick i c =
     (case intervals c i of
        None \<Rightarrow> c
      | Some t \<Rightarrow>
          (let idx = (suggestionIndex t + 1) mod length (questions t)
           in c\<lparr>intervals := (intervals c)(i \<mapsto> t\<lparr>suggestionIndex := idx\<rparr>),
                currentSuggestion := questions t ! idx\<rparr>))"

text \<open>The cleanup function \<^verbatim>\<open>() => clearInterval(intervalId)\<close>, when there is one.\<close>

definition runCleanup :: "component \<Rightarrow> component" where
  "runCleanup c =
     (case cleanup c of
        None \<Rightarrow> c
      | Some i \<Rightarrow> (clearInterval i c)\<lparr>cleanup := None\<rparr>)"

text \<open>
  The contract of \<^verbatim>\<open>useEffect\<close> with the dependency list \<^verbatim>\<open>[exampleQuestions]\<close>:
  on the first render and whenever the list is another object, React runs the cleanup
  of the last run and then the effect; when the component goes away it runs the
  cleanup.
\<close>

datatype event = Commit "jsstring list" | Tick nat | Unmount

fun fire :: "component \<Rightarrow> event \<Rightarrow> component" where
  "fire c (Commit exampleQuestions) = suggestionEffect exampleQuestions (runCleanup c)"
| "fire c (Tick i) = tick i c"
| "fire c Unmount = runCleanup c"

definition runEvents :: "event list \<Rightarrow> component" where
  "runEvents evs = foldl fire fresh evs"

text \<open>The pending intervals are the one that the stored cleanup clears, if any.\<close>

definition owned :: "component \<Rightarrow> bool" where
  "owned c \<longleftrightarrow> dom (intervals c) = set_option (cleanup c)"

text \<open>The counter of every pending interval is an index into its list.\<close>

definition inRange :: "component \<Rightarrow> bool" where
  "inRange c \<longleftrightarrow>
     (\<forall>i t. intervals c i = Some t \<longrightarrow> suggestionIndex t < length (questions t))"

section \<open>The input form\<close>

text \<open>
  The state \<^verbatim>\<open>query\<close>, the arguments \<^verbatim>\<open>onSendMessage\<close> has been called with, in
  order, and whether \<^verbatim>\<open>preventDefault\<close> has been called on the event.
\<close>

record form =
  query :: jsstring
  sent :: "jsstring list"
  defaultPrevented :: bool

definition handleSubmit :: "form \<Rightarrow> form" where
  "handleSubmit f =
     (let f1 = f\<lparr>defaultPrevented := True\<rparr>
      in if trim_js (query f1) \<noteq> []
         then f1\<lparr>sent := sent f1 @ [query f1], query := []\<rparr>
         else f1)"

section \<open>The conversation view\<close>

text \<open>
  Modelled from the spec: the declaration of \<^verbatim>\<open>ChatMessage\<close> in \<^verbatim>\<open>../types\<close>. A
  message has a role, an ordered sequence of text parts and an optional sequence of
  grounding references, each with an optional retrieved text.
\<close>

datatype role = user | model

record part =
  part_text :: jsstring

record groundingChunk =
  retrievedContext :: "jsstring option"

record chatMessage =
  role :: role
  parts :: "part list"
  groundingChunks :: "groundingChunk list option"

datatype error = TypeError

text \<open>What the view shows for one message: the markup of the bubble and of each source.\<close>

record bubble =
  fromUser :: bool
  body :: jsstring
  sources :: "jsstring list"

text \<open>\<^verbatim>\<open>chunk.retrievedContext?.text && ...\<close>: a source is shown for a text that is
  there and not empty.\<close>

definition sourceViews :: "groundingChunk list \<Rightarrow> jsstring list" where
  "sourceViews chunks =
     concat (map (\<lambda>chunk. case retrievedContext chunk of
                              None \<Rightarrow> []
                            | Some t \<Rightarrow> if t \<noteq> [] then [renderMarkdown t] else []) chunks)"

text \<open>
  The body of \<^verbatim>\<open>history.map\<close>. \<^verbatim>\<open>message.parts[0]\<close> is \<^verbatim>\<open>undefined\<close> for an empty
  array, and reading \<^verbatim>\<open>.text\<close> of it throws a \<^verbatim>\<open>TypeError\<close>.
\<close>

definition messageView :: "chatMessage \<Rightarrow> error + bubble" where
  "messageView message =
     (case parts message of
        [] \<Rightarrow> Inl TypeError
      | p # _ \<Rightarrow>
          Inr \<lparr>fromUser = (role message = user),
               body = renderMarkdown (part_text p),
               sources =
                 (if role message = model
                  then (case groundingChunks message of
                          None \<Rightarrow> []
                        | Some chunks \<Rightarrow> if length chunks > 0 then sourceViews chunks else [])
                  else [])\<rparr>)"

text \<open>\<^verbatim>\<open>history.map\<close>: the messages in order; the first throw ends the rendering.\<close>

fun historyView :: "chatMessage list \<Rightarrow> error + bubble list" where
  "historyView [] = Inr []"
| "historyView (message # rest) =
     (case messageView message of
        Inl e \<Rightarrow> Inl e
      | Inr b \<Rightarrow> (case historyView rest of Inl e \<Rightarrow> Inl e | Inr bs \<Rightarrow> Inr (b # bs)))"


section \<open>The loop of the renderer\<close>

lemma step_cases:
  "step st l =
     (case lineClass l of
        ListLine t \<Rightarrow>
          (let st1 = flushPara st;
               st2 = (if listType st1 \<noteq> Some t
                      then (flushList st1)\<lparr>html := html (flushList st1) @ list_open t,
                                             listType := Some t\<rparr>
                      else st1)
           in st2\<lparr>html := html st2 @ li (itemText l)\<rparr>)
      | BlankLine \<Rightarrow> flushPara (flushList st)
      | TextLine \<Rightarrow>
          (flushList st)\<lparr>paraBuffer :=
             paraBuffer (flushList st) @
             (if paraBuffer (flushList st) \<noteq> [] then js ''<br/>'' else []) @ inline l\<rparr>)"
  by (auto simp: step_def lineClass_def itemText_def olItem_def ulItem_def plainLine_def Let_def
        list_open_def li_def split: option.splits)

lemma flushPara_html:
  "flushPara (st\<lparr>html := h @ html st\<rparr>) = (flushPara st)\<lparr>html := h @ html (flushPara st)\<rparr>"
  by (simp add: flushPara_def)

lemma flushList_html:
  "flushList (st\<lparr>html := h @ html st\<rparr>) = (flushList st)\<lparr>html := h @ html (flushList st)\<rparr>"
  by (simp add: flushList_def split: option.splits)

lemma step_html:
  "step (st\<lparr>html := h @ html st\<rparr>) l = (step st l)\<lparr>html := h @ html (step st l)\<rparr>"
  by (simp add: step_cases flushPara_html flushList_html Let_def split: line_class.splits)

lemma foldl_step_html:
  "foldl step (st\<lparr>html := h @ html st\<rparr>) ls =
   (foldl step st ls)\<lparr>html := h @ html (foldl step st ls)\<rparr>"
proof (induction ls arbitrary: st)
  case Nil
  show ?case by simp
next
  case (Cons l ls)
  show ?case by (simp add: step_html Cons.IH)
qed

lemma closeAll_html:
  "closeAll (st\<lparr>html := h @ html st\<rparr>) = (closeAll st)\<lparr>html := h @ html (closeAll st)\<rparr>"
  by (simp add: closeAll_def flushPara_html flushList_html)

lemma closeAll_shape: "closeAll st = init\<lparr>html := html (closeAll st)\<rparr>"
  by (simp add: closeAll_def flushPara_def flushList_def init_def split: option.splits)

lemma renderLines_closeAll: "renderLines ls = html (closeAll (foldl step init ls))"
  by (simp add: renderLines_def closeAll_def)

lemma renderLines_Nil: "renderLines [] = []"
  by (simp add: renderLines_def init_def flushPara_def flushList_def)

lemma exclusive_init: "exclusive init"
  by (simp add: exclusive_def init_def)

lemma exclusive_step: "exclusive st \<Longrightarrow> exclusive (step st l)"
  by (auto simp: exclusive_def step_cases flushPara_def flushList_def Let_def
        split: line_class.splits option.splits)

lemma exclusive_foldl: "exclusive st \<Longrightarrow> exclusive (foldl step st ls)"
  by (induction ls arbitrary: st) (simp_all add: exclusive_step)

lemma trim_js_Nil: "trim_js [] = []"
  by (simp add: trim_js_def)

lemma text_line_nonempty: "lineClass l = TextLine \<Longrightarrow> inline l \<noteq> []"
  by (auto simp: lineClass_def Let_def trim_js_Nil split: if_splits)

lemma open_after_step:
  "lineClass l = ListLine t \<Longrightarrow> listType (step st l) = Some t \<and> paraBuffer (step st l) = []"
  "lineClass l = BlankLine \<Longrightarrow> listType (step st l) = None \<and> paraBuffer (step st l) = []"
  "lineClass l = TextLine \<Longrightarrow> listType (step st l) = None \<and> paraBuffer (step st l) \<noteq> []"
  by (auto simp: step_cases flushPara_def flushList_def Let_def text_line_nonempty
        split: option.splits)

lemma step_closeAll:
  assumes "exclusive st" and "\<not> continues st l"
  shows "step st l = step (closeAll st) l"
proof (cases "lineClass l")
  case (ListLine t)
  with assms(2) have "listType st \<noteq> Some t" by (simp add: continues_def)
  with ListLine show ?thesis
    by (simp add: step_cases closeAll_def flushPara_def flushList_def Let_def split: option.splits)
next
  case BlankLine
  with assms(1) show ?thesis
    by (auto simp: step_cases closeAll_def flushPara_def flushList_def exclusive_def
          split: option.splits)
next
  case TextLine
  with assms(2) have "paraBuffer st = []" by (simp add: continues_def)
  with TextLine show ?thesis
    by (simp add: step_cases closeAll_def flushPara_def flushList_def split: option.splits)
qed

lemma foldl_from_closeAll:
  "foldl step (closeAll st) ls =
   (foldl step init ls)\<lparr>html := html (closeAll st) @ html (foldl step init ls)\<rparr>"
proof -
  have "closeAll st = init\<lparr>html := html (closeAll st) @ html init\<rparr>"
    using closeAll_shape [of st] by (simp add: init_def)
  then show ?thesis
    using foldl_step_html [where st = init and h = "html (closeAll st)" and ls = ls] by simp
qed

lemma render_split_state:
  assumes "exclusive st" and "post = [] \<or> \<not> continues st (hd post)"
  shows "html (closeAll (foldl step st post)) = html (closeAll st) @ renderLines post"
proof (cases post)
  case Nil
  then show ?thesis by (simp add: renderLines_Nil)
next
  case (Cons l ls)
  with assms have "step st l = step (closeAll st) l" by (simp add: step_closeAll)
  then have "foldl step st post = foldl step (closeAll st) post" using Cons by simp
  also have "\<dots> = (foldl step init post)\<lparr>html := html (closeAll st) @ html (foldl step init post)\<rparr>"
    by (rule foldl_from_closeAll)
  finally show ?thesis
    by (simp add: closeAll_html renderLines_closeAll)
qed

lemma not_continues_init: "\<not> continues init l"
  by (simp add: continues_def init_def)

lemma not_continues_last:
  assumes "pre \<noteq> []" and "lineClass l = BlankLine \<or> lineClass (last pre) \<noteq> lineClass l"
  shows "\<not> continues (foldl step st pre) l"
proof -
  from assms(1) obtain ys y where pre: "pre = ys @ [y]" by (metis rev_exhaust)
  show ?thesis
    using assms(2) open_after_step [where l = y and st = "foldl step st ys"]
    by (cases "lineClass y") (auto simp: pre continues_def)
qed

lemma render_split:
  assumes "boundary pre post"
  shows "renderLines (pre @ post) = renderLines pre @ renderLines post"
proof -
  have nc: "post = [] \<or> \<not> continues (foldl step init pre) (hd post)"
    using assms not_continues_init not_continues_last [of pre "hd post" init]
    by (cases "pre = []") (auto simp: boundary_def)
  have "exclusive (foldl step init pre)" by (simp add: exclusive_foldl exclusive_init)
  from render_split_state [OF this nc] show ?thesis
    by (simp add: renderLines_closeAll)
qed

lemma list_run_state:
  assumes "listType st = Some t" and "paraBuffer st = []"
      and "\<forall>l\<in>set run. lineClass l = ListLine t"
  shows "foldl step st run = st\<lparr>html := html st @ concat (map (\<lambda>l. li (itemText l)) run)\<rparr>"
  using assms
proof (induction run arbitrary: st)
  case Nil
  show ?case by simp
next
  case (Cons l ls)
  have s: "step st l = st\<lparr>html := html st @ li (itemText l)\<rparr>"
    using Cons.prems by (simp add: step_cases flushPara_def Let_def)
  show ?case
    using Cons.prems by (simp add: s Cons.IH)
qed

lemma list_run_render:
  assumes "run \<noteq> []" and "\<forall>l\<in>set run. lineClass l = ListLine t"
  shows "renderLines run = list_open t @ concat (map (\<lambda>l. li (itemText l)) run) @ list_close t"
proof -
  from assms(1) obtain l ls where run: "run = l # ls" by (cases run) auto
  have l: "lineClass l = ListLine t" using assms(2) run by simp
  have st: "step init l =
            \<lparr>html = list_open t @ li (itemText l), listType = Some t, paraBuffer = []\<rparr>"
    using l by (simp add: step_cases init_def flushPara_def flushList_def Let_def)
  have "foldl step (step init l) ls =
        (step init l)\<lparr>html := html (step init l) @ concat (map (\<lambda>l. li (itemText l)) ls)\<rparr>"
    using assms(2) run by (intro list_run_state [where t = t]) (simp_all add: st)
  then show ?thesis
    by (simp add: renderLines_def run st flushPara_def flushList_def list_close_def)
qed

lemma join_br_Cons: "join_br (x # xs) = x @ concat (map (\<lambda>y. js ''<br/>'' @ y) xs)"
  by (induction xs arbitrary: x) simp_all

lemma text_run_state:
  assumes "listType st = None" and "paraBuffer st \<noteq> []"
      and "\<forall>l\<in>set run. lineClass l = TextLine"
  shows "foldl step st run =
         st\<lparr>paraBuffer := paraBuffer st @ concat (map (\<lambda>l. js ''<br/>'' @ inline l) run)\<rparr>"
  using assms
proof (induction run arbitrary: st)
  case Nil
  show ?case by simp
next
  case (Cons l ls)
  have s: "step st l = st\<lparr>paraBuffer := paraBuffer st @ js ''<br/>'' @ inline l\<rparr>"
    using Cons.prems by (simp add: step_cases flushList_def)
  show ?case
    using Cons.prems by (simp add: s Cons.IH)
qed

lemma text_run_render:
  assumes "run \<noteq> []" and "\<forall>l\<in>set run. lineClass l = TextLine"
  shows "renderLines run = para_open @ join_br (map inline run) @ js ''</p>''"
proof -
  from assms(1) obtain l ls where run: "run = l # ls" by (cases run) auto
  have l: "lineClass l = TextLine" using assms(2) run by simp
  have st: "step init l = \<lparr>html = [], listType = None, paraBuffer = inline l\<rparr>"
    using l by (simp add: step_cases init_def flushList_def)
  have ne: "inline l \<noteq> []" using l by (rule text_line_nonempty)
  have "foldl step (step init l) ls =
        (step init l)\<lparr>paraBuffer :=
           paraBuffer (step init l) @ concat (map (\<lambda>l. js ''<br/>'' @ inline l) ls)\<rparr>"
    using assms(2) run ne by (intro text_run_state) (simp_all add: st)
  then show ?thesis
    using ne
    by (simp add: renderLines_def run st flushPara_def flushList_def join_br_Cons comp_def)
qed








section \<open>The inline substitutions\<close>

lemma replace_global_skip:
  assumes "\<forall>c\<in>set u. \<forall>x. m (c # x) = None"
  shows "replace_global m w (u @ s) = u @ replace_global m w s"
  using assms by (induction u) simp_all

lemma replace_global_match:
  assumes "m (c # cs) = Some (caps, rest)" and "length rest < length (c # cs)"
  shows "replace_global m w (c # cs) = w caps @ replace_global m w rest"
  using assms by simp

lemma lazy_until_found:
  assumes "d \<noteq> []" and "hd d \<notin> set cap" and "\<forall>c\<in>set cap. \<not> isLineTerminator c"
  shows "lazy_until d (cap @ d @ rest) = Some (cap, rest)"
  using assms(2,3)
proof (induction cap)
  case Nil
  from assms(1) obtain a d' where d: "d = a # d'" by (cases d) auto
  show ?case by (simp add: d)
next
  case (Cons c cap)
  from assms(1) obtain a d' where d: "d = a # d'" by (cases d) auto
  from Cons.prems have "c \<noteq> a" by (auto simp: d)
  then have "\<not> prefix d (c # cap @ d @ rest)" by (simp add: d)
  with Cons show ?case by simp
qed

lemma match_delim_found:
  assumes "d \<noteq> []" and "hd d \<notin> set cap" and "\<forall>c\<in>set cap. \<not> isLineTerminator c"
  shows "match_delim d (d @ cap @ d @ rest) = Some (cap, rest)"
  using lazy_until_found [OF assms] by (simp add: match_delim_def)

lemma match_delim_other: "d \<noteq> [] \<Longrightarrow> c \<noteq> hd d \<Longrightarrow> match_delim d (c # x) = None"
  by (cases d) (simp_all add: match_delim_def)

lemma js_simps:
  "js ''**'' = [0x2A, 0x2A]" "js ''__'' = [0x5F, 0x5F]" "js ''*'' = [0x2A]" "js ''_'' = [0x5F]"
  "js ''`'' = [0x60]"
  by (simp_all add: js_def)

lemma match_bold_None: "c \<noteq> 0x2A \<Longrightarrow> c \<noteq> 0x5F \<Longrightarrow> match_bold (c # x) = None"
  by (simp add: match_bold_def match_delim_other js_simps)

lemma match_em_None: "c \<noteq> 0x2A \<Longrightarrow> c \<noteq> 0x5F \<Longrightarrow> match_em (c # x) = None"
  by (simp add: match_em_def match_delim_other js_simps)

lemma match_code_None: "c \<noteq> 0x60 \<Longrightarrow> match_code (c # x) = None"
  by (simp add: match_code_def)

lemma match_bold_star:
  assumes "\<forall>c\<in>set cap. c \<noteq> 0x2A \<and> \<not> isLineTerminator c"
  shows "match_bold (js ''**'' @ cap @ js ''**'' @ rest) = Some ([Some cap, None], rest)"
proof -
  have "match_delim (js ''**'') (js ''**'' @ cap @ js ''**'' @ rest) = Some (cap, rest)"
    using assms by (intro match_delim_found) (auto simp: js_simps)
  then show ?thesis by (simp add: match_bold_def)
qed

lemma match_bold_underscore:
  assumes "\<forall>c\<in>set cap. c \<noteq> 0x5F \<and> \<not> isLineTerminator c"
  shows "match_bold (js ''__'' @ cap @ js ''__'' @ rest) = Some ([None, Some cap], rest)"
proof -
  have "match_delim (js ''__'') (js ''__'' @ cap @ js ''__'' @ rest) = Some (cap, rest)"
    using assms by (intro match_delim_found) (auto simp: js_simps)
  moreover have "match_delim (js ''**'') (js ''__'' @ cap @ js ''__'' @ rest) = None"
    by (simp add: js_simps match_delim_other)
  ultimately show ?thesis by (simp add: match_bold_def)
qed

lemma match_em_star:
  assumes "\<forall>c\<in>set cap. c \<noteq> 0x2A \<and> \<not> isLineTerminator c"
  shows "match_em (js ''*'' @ cap @ js ''*'' @ rest) = Some ([Some cap, None], rest)"
proof -
  have "match_delim (js ''*'') (js ''*'' @ cap @ js ''*'' @ rest) = Some (cap, rest)"
    using assms by (intro match_delim_found) (auto simp: js_simps)
  then show ?thesis by (simp add: match_em_def)
qed

lemma match_em_underscore:
  assumes "\<forall>c\<in>set cap. c \<noteq> 0x5F \<and> \<not> isLineTerminator c"
  shows "match_em (js ''_'' @ cap @ js ''_'' @ rest) = Some ([None, Some cap], rest)"
proof -
  have "match_delim (js ''_'') (js ''_'' @ cap @ js ''_'' @ rest) = Some (cap, rest)"
    using assms by (intro match_delim_found) (auto simp: js_simps)
  moreover have "match_delim (js ''*'') (js ''_'' @ cap @ js ''_'' @ rest) = None"
    by (simp add: js_simps match_delim_other)
  ultimately show ?thesis by (simp add: match_em_def)
qed

lemma match_code_found:
  assumes "cap \<noteq> []" and "\<forall>c\<in>set cap. c \<noteq> 0x60"
  shows "match_code (js ''`'' @ cap @ js ''`'' @ rest) = Some ([Some cap], rest)"
proof -
  have "takeWhile (\<lambda>x. x \<noteq> 0x60) (cap @ 0x60 # rest) = cap"
    using assms(2) by (simp add: takeWhile_append2)
  moreover have "dropWhile (\<lambda>x. x \<noteq> 0x60) (cap @ 0x60 # rest) = 0x60 # rest"
    using assms(2) by (simp add: dropWhile_append2)
  ultimately show ?thesis
    using assms(1) by (simp add: match_code_def js_simps)
qed

lemma replace_global_found:
  assumes "\<forall>c\<in>set u. \<forall>x. m (c # x) = None"
      and "m (d @ cap @ d @ rest) = Some (caps, rest)" and "d \<noteq> []"
  shows "replace_global m w (u @ d @ cap @ d @ rest) = u @ w caps @ replace_global m w rest"
proof -
  from assms(3) obtain a d' where d: "d = a # d'" by (cases d) auto
  have "replace_global m w (d @ cap @ d @ rest) = w caps @ replace_global m w rest"
    using assms(2) unfolding d by (simp add: replace_global_match)
  then show ?thesis
    by (simp add: replace_global_skip [OF assms(1)])
qed

lemma replace_global_id:
  assumes "\<forall>c\<in>set u. \<forall>x. m (c # x) = None" and "m [] = None"
  shows "replace_global m w u = u"
  using replace_global_skip [OF assms(1), of w "[]"] assms(2) by simp

lemma match_Nil: "match_bold [] = None" "match_em [] = None" "match_code [] = None"
  by (simp_all add: match_bold_def match_em_def match_code_def match_delim_def js_simps)


lemma replace_bold_star:
  assumes "\<forall>c\<in>set u. c \<noteq> 0x2A \<and> c \<noteq> 0x5F"
      and "\<forall>c\<in>set cap. c \<noteq> 0x2A \<and> \<not> isLineTerminator c"
  shows "replace_bold (u @ js ''**'' @ cap @ js ''**'' @ rest) =
         u @ js ''<strong>'' @ cap @ js ''</strong>'' @ replace_bold rest"
proof -
  have "\<forall>c\<in>set u. \<forall>x. match_bold (c # x) = None"
    using assms(1) by (simp add: match_bold_None)
  from replace_global_found [OF this match_bold_star [OF assms(2)]]
  show ?thesis by (simp add: replace_bold_def group_def js_simps)
qed

lemma replace_bold_underscore:
  assumes "\<forall>c\<in>set u. c \<noteq> 0x2A \<and> c \<noteq> 0x5F"
      and "\<forall>c\<in>set cap. c \<noteq> 0x5F \<and> \<not> isLineTerminator c"
  shows "replace_bold (u @ js ''__'' @ cap @ js ''__'' @ rest) =
         u @ js ''<strong>'' @ cap @ js ''</strong>'' @ replace_bold rest"
proof -
  have "\<forall>c\<in>set u. \<forall>x. match_bold (c # x) = None"
    using assms(1) by (simp add: match_bold_None)
  from replace_global_found [OF this match_bold_underscore [OF assms(2)]]
  show ?thesis by (simp add: replace_bold_def group_def js_simps)
qed

lemma replace_em_star:
  assumes "\<forall>c\<in>set u. c \<noteq> 0x2A \<and> c \<noteq> 0x5F"
      and "\<forall>c\<in>set cap. c \<noteq> 0x2A \<and> \<not> isLineTerminator c"
  shows "replace_em (u @ js ''*'' @ cap @ js ''*'' @ rest) =
         u @ js ''<em>'' @ cap @ js ''</em>'' @ replace_em rest"
proof -
  have "\<forall>c\<in>set u. \<forall>x. match_em (c # x) = None"
    using assms(1) by (simp add: match_em_None)
  from replace_global_found [OF this match_em_star [OF assms(2)]]
  show ?thesis by (simp add: replace_em_def group_def js_simps)
qed

lemma replace_em_underscore:
  assumes "\<forall>c\<in>set u. c \<noteq> 0x2A \<and> c \<noteq> 0x5F"
      and "\<forall>c\<in>set cap. c \<noteq> 0x5F \<and> \<not> isLineTerminator c"
  shows "replace_em (u @ js ''_'' @ cap @ js ''_'' @ rest) =
         u @ js ''<em>'' @ cap @ js ''</em>'' @ replace_em rest"
proof -
  have "\<forall>c\<in>set u. \<forall>x. match_em (c # x) = None"
    using assms(1) by (simp add: match_em_None)
  from replace_global_found [OF this match_em_underscore [OF assms(2)]]
  show ?thesis by (simp add: replace_em_def group_def js_simps)
qed

lemma replace_code_found:
  assumes "\<forall>c\<in>set u. c \<noteq> 0x60" and "cap \<noteq> []" and "\<forall>c\<in>set cap. c \<noteq> 0x60"
  shows "replace_code (u @ js ''`'' @ cap @ js ''`'' @ rest) =
         u @ code_open @ cap @ js ''</code>'' @ replace_code rest"
proof -
  have "\<forall>c\<in>set u. \<forall>x. match_code (c # x) = None"
    using assms(1) by (simp add: match_code_None)
  from replace_global_found [OF this match_code_found [OF assms(2,3)]]
  show ?thesis by (simp add: replace_code_def group_def js_simps)
qed

lemma replace_unmarked:
  assumes "\<forall>c\<in>set u. c \<noteq> 0x2A \<and> c \<noteq> 0x5F"
  shows "replace_bold u = u" and "replace_em u = u"
proof -
  have "\<forall>c\<in>set u. \<forall>x. match_bold (c # x) = None"
    using assms by (simp add: match_bold_None)
  then show "replace_bold u = u"
    unfolding replace_bold_def by (rule replace_global_id) (rule match_Nil)
  have "\<forall>c\<in>set u. \<forall>x. match_em (c # x) = None"
    using assms by (simp add: match_em_None)
  then show "replace_em u = u"
    unfolding replace_em_def by (rule replace_global_id) (rule match_Nil)
qed

lemma replace_code_unmarked:
  assumes "\<forall>c\<in>set u. c \<noteq> 0x60"
  shows "replace_code u = u"
proof -
  have "\<forall>c\<in>set u. \<forall>x. match_code (c # x) = None"
    using assms by (simp add: match_code_None)
  then show ?thesis
    unfolding replace_code_def by (rule replace_global_id) (rule match_Nil)
qed

lemma single_text_line:
  assumes "lineClass rawLine = TextLine"
  shows "renderLines [rawLine] =
         para_open @ replace_code (replace_em (replace_bold rawLine)) @ js ''</p>''"
  using text_run_render [of "[rawLine]"] assms by (simp add: inline_def)

lemma single_ol_line:
  assumes "matchOl (replace_code (replace_em (replace_bold rawLine))) = Some item"
  shows "renderLines [rawLine] = ol_open @ js ''<li>'' @ item @ js ''</li></ol>''"
proof -
  have "lineClass rawLine = ListLine ol" "itemText rawLine = item"
    using assms by (simp_all add: lineClass_def itemText_def inline_def)
  with list_run_render [of "[rawLine]" ol] show ?thesis
    by (simp add: list_open_def list_close_def li_def tag_def js_def)
qed

lemma single_ul_line:
  assumes "matchOl (replace_code (replace_em (replace_bold rawLine))) = None"
      and "matchUl (replace_code (replace_em (replace_bold rawLine))) = Some item"
  shows "renderLines [rawLine] = ul_open @ js ''<li>'' @ item @ js ''</li></ul>''"
proof -
  have "lineClass rawLine = ListLine ul" "itemText rawLine = item"
    using assms by (simp_all add: lineClass_def itemText_def inline_def)
  with list_run_render [of "[rawLine]" ul] show ?thesis
    by (simp add: list_open_def list_close_def li_def tag_def js_def)
qed

lemma ex_bold: "renderMarkdown (js ''**bold**'') = para_open @ js ''<strong>bold</strong></p>''"
  by code_simp

lemma ex_em: "renderMarkdown (js ''*em*'') = para_open @ js ''<em>em</em></p>''"
  by code_simp

lemma ex_code: "renderMarkdown (js ''`code`'') = para_open @ code_open @ js ''code</code></p>''"
  by code_simp

lemma ex_order:
  "replace_bold (replace_em (js ''**bold**'')) \<noteq> replace_em (replace_bold (js ''**bold**''))"
  by code_simp

text \<open>
  C4. Every line goes through exactly three substitutions, in this order: bold markers,
  then emphasis markers, then inline code spans; what the loop classifies and emits for a
  raw line is \<open>replace_code (replace_em (replace_bold rawLine))\<close>. Each substitution is one
  global replace over the whole line: text without marker characters is copied, a marked
  span is wrapped, and the replace goes on in the rest of the line. The order of the
  first two matters. Rendering \<^verbatim>\<open>"**bold**"\<close> gives bold wrapped in \<^verbatim>\<open><strong>\<close>,
  \<^verbatim>\<open>"*em*"\<close> gives em wrapped in \<^verbatim>\<open><em>\<close>, and a backtick span gives code wrapped in the
  \<^verbatim>\<open><code>\<close> tag.
\<close>

theorem inline_substitutions_in_order:
  "((\<forall>c\<in>set u. c \<noteq> 0x2A \<and> c \<noteq> 0x5F) \<and>
    (\<forall>c\<in>set cap. c \<noteq> 0x2A \<and> \<not> isLineTerminator c) \<longrightarrow>
      replace_bold (u @ js ''**'' @ cap @ js ''**'' @ rest) =
        u @ js ''<strong>'' @ cap @ js ''</strong>'' @ replace_bold rest \<and>
      replace_em (u @ js ''*'' @ cap @ js ''*'' @ rest) =
        u @ js ''<em>'' @ cap @ js ''</em>'' @ replace_em rest) \<and>
   ((\<forall>c\<in>set u. c \<noteq> 0x2A \<and> c \<noteq> 0x5F) \<and>
    (\<forall>c\<in>set cap. c \<noteq> 0x5F \<and> \<not> isLineTerminator c) \<longrightarrow>
      replace_bold (u @ js ''__'' @ cap @ js ''__'' @ rest) =
        u @ js ''<strong>'' @ cap @ js ''</strong>'' @ replace_bold rest \<and>
      replace_em (u @ js ''_'' @ cap @ js ''_'' @ rest) =
        u @ js ''<em>'' @ cap @ js ''</em>'' @ replace_em rest) \<and>
   ((\<forall>c\<in>set u. c \<noteq> 0x60) \<and> cap \<noteq> [] \<and> (\<forall>c\<in>set cap. c \<noteq> 0x60) \<longrightarrow>
      replace_code (u @ js ''`'' @ cap @ js ''`'' @ rest) =
        u @ code_open @ cap @ js ''</code>'' @ replace_code rest) \<and>
   ((\<forall>c\<in>set u. c \<noteq> 0x2A \<and> c \<noteq> 0x5F) \<longrightarrow> replace_bold u = u \<and> replace_em u = u) \<and>
   ((\<forall>c\<in>set u. c \<noteq> 0x60) \<longrightarrow> replace_code u = u) \<and>
   (lineClass rawLine = TextLine \<longrightarrow>
      renderLines [rawLine] =
        para_open @ replace_code (replace_em (replace_bold rawLine)) @ js ''</p>'') \<and>
   (matchOl (replace_code (replace_em (replace_bold rawLine))) = Some item \<longrightarrow>
      renderLines [rawLine] = ol_open @ js ''<li>'' @ item @ js ''</li></ol>'') \<and>
   (matchOl (replace_code (replace_em (replace_bold rawLine))) = None \<and>
    matchUl (replace_code (replace_em (replace_bold rawLine))) = Some item \<longrightarrow>
      renderLines [rawLine] = ul_open @ js ''<li>'' @ item @ js ''</li></ul>'') \<and>
   renderMarkdown (js ''**bold**'') = para_open @ js ''<strong>bold</strong></p>'' \<and>
   renderMarkdown (js ''*em*'') = para_open @ js ''<em>em</em></p>'' \<and>
   renderMarkdown (js ''`code`'') = para_open @ code_open @ js ''code</code></p>'' \<and>
   replace_bold (replace_em (js ''**bold**'')) \<noteq> replace_em (replace_bold (js ''**bold**''))"
proof (intro conjI impI)
  assume "(\<forall>c\<in>set u. c \<noteq> 0x2A \<and> c \<noteq> 0x5F) \<and>
    (\<forall>c\<in>set cap. c \<noteq> 0x2A \<and> \<not> isLineTerminator c)"
  then have a: "\<forall>c\<in>set u. c \<noteq> 0x2A \<and> c \<noteq> 0x5F"
    and b: "\<forall>c\<in>set cap. c \<noteq> 0x2A \<and> \<not> isLineTerminator c"
    by blast+
  show "replace_bold (u @ js ''**'' @ cap @ js ''**'' @ rest) =
        u @ js ''<strong>'' @ cap @ js ''</strong>'' @ replace_bold rest"
    by (rule replace_bold_star [OF a b])
  show "replace_em (u @ js ''*'' @ cap @ js ''*'' @ rest) =
        u @ js ''<em>'' @ cap @ js ''</em>'' @ replace_em rest"
    by (rule replace_em_star [OF a b])
next
  assume "(\<forall>c\<in>set u. c \<noteq> 0x2A \<and> c \<noteq> 0x5F) \<and>
    (\<forall>c\<in>set cap. c \<noteq> 0x5F \<and> \<not> isLineTerminator c)"
  then have a: "\<forall>c\<in>set u. c \<noteq> 0x2A \<and> c \<noteq> 0x5F"
    and b: "\<forall>c\<in>set cap. c \<noteq> 0x5F \<and> \<not> isLineTerminator c"
    by blast+
  show "replace_bold (u @ js ''__'' @ cap @ js ''__'' @ rest) =
        u @ js ''<strong>'' @ cap @ js ''</strong>'' @ replace_bold rest"
    by (rule replace_bold_underscore [OF a b])
  show "replace_em (u @ js ''_'' @ cap @ js ''_'' @ rest) =
        u @ js ''<em>'' @ cap @ js ''</em>'' @ replace_em rest"
    by (rule replace_em_underscore [OF a b])
next
  assume "(\<forall>c\<in>set u. c \<noteq> 0x60) \<and> cap \<noteq> [] \<and> (\<forall>c\<in>set cap. c \<noteq> 0x60)"
  then have a: "\<forall>c\<in>set u. c \<noteq> 0x60" and b: "cap \<noteq> []" and c: "\<forall>c\<in>set cap. c \<noteq> 0x60"
    by blast+
  show "replace_code (u @ js ''`'' @ cap @ js ''`'' @ rest) =
        u @ code_open @ cap @ js ''</code>'' @ replace_code rest"
    by (rule replace_code_found [OF a b c])
next
  assume a: "\<forall>c\<in>set u. c \<noteq> 0x2A \<and> c \<noteq> 0x5F"
  show "replace_bold u = u" by (rule replace_unmarked(1) [OF a])
  show "replace_em u = u" by (rule replace_unmarked(2) [OF a])
next
  assume "\<forall>c\<in>set u. c \<noteq> 0x60"
  then show "replace_code u = u" by (rule replace_code_unmarked)
next
  assume "lineClass rawLine = TextLine"
  then show "renderLines [rawLine] =
        para_open @ replace_code (replace_em (replace_bold rawLine)) @ js ''</p>''"
    by (rule single_text_line)
next
  assume "matchOl (replace_code (replace_em (replace_bold rawLine))) = Some item"
  then show "renderLines [rawLine] = ol_open @ js ''<li>'' @ item @ js ''</li></ol>''"
    by (rule single_ol_line)
next
  assume "matchOl (replace_code (replace_em (replace_bold rawLine))) = None \<and>
    matchUl (replace_code (replace_em (replace_bold rawLine))) = Some item"
  then show "renderLines [rawLine] = ul_open @ js ''<li>'' @ item @ js ''</li></ul>''"
    by (intro single_ul_line) simp_all
next
  show "renderMarkdown (js ''**bold**'') = para_open @ js ''<strong>bold</strong></p>''"
    by (rule ex_bold)
  show "renderMarkdown (js ''*em*'') = para_open @ js ''<em>em</em></p>''"
    by (rule ex_em)
  show "renderMarkdown (js ''`code`'') = para_open @ code_open @ js ''code</code></p>''"
    by (rule ex_code)
  show "replace_bold (replace_em (js ''**bold**'')) \<noteq> replace_em (replace_bold (js ''**bold**''))"
    by (rule ex_order)
qed


theorem inline_substitutions_in_order_witness:
  "replace_bold (js ''a '' @ js ''**'' @ js ''b'' @ js ''**'' @ js '' c'') =
     js ''a '' @ js ''<strong>'' @ js ''b'' @ js ''</strong>'' @ replace_bold (js '' c'') \<and>
   replace_em (js ''a '' @ js ''*'' @ js ''b'' @ js ''*'' @ js '' c'') =
     js ''a '' @ js ''<em>'' @ js ''b'' @ js ''</em>'' @ replace_em (js '' c'') \<and>
   replace_bold (js ''a '' @ js ''__'' @ js ''b'' @ js ''__'' @ js '' c'') =
     js ''a '' @ js ''<strong>'' @ js ''b'' @ js ''</strong>'' @ replace_bold (js '' c'') \<and>
   replace_em (js ''a '' @ js ''_'' @ js ''b'' @ js ''_'' @ js '' c'') =
     js ''a '' @ js ''<em>'' @ js ''b'' @ js ''</em>'' @ replace_em (js '' c'') \<and>
   replace_code (js ''a '' @ js ''`'' @ js ''b'' @ js ''`'' @ js '' c'') =
     js ''a '' @ code_open @ js ''b'' @ js ''</code>'' @ replace_code (js '' c'') \<and>
   replace_bold (js ''a '') = js ''a '' \<and> replace_em (js ''a '') = js ''a '' \<and>
   replace_code (js ''a '') = js ''a '' \<and>
   lineClass (js ''x *y*'') = TextLine \<and>
   renderLines [js ''x *y*''] =
     para_open @ replace_code (replace_em (replace_bold (js ''x *y*''))) @ js ''</p>'' \<and>
   matchOl (replace_code (replace_em (replace_bold (js ''1. *y*'')))) = Some (js ''<em>y</em>'') \<and>
   renderLines [js ''1. *y*''] = ol_open @ js ''<li>'' @ js ''<em>y</em>'' @ js ''</li></ol>'' \<and>
   matchOl (replace_code (replace_em (replace_bold (js ''- *y*'')))) = None \<and>
   matchUl (replace_code (replace_em (replace_bold (js ''- *y*'')))) = Some (js ''<em>y</em>'') \<and>
   renderLines [js ''- *y*''] = ul_open @ js ''<li>'' @ js ''<em>y</em>'' @ js ''</li></ul>''"
proof -
  note T = inline_substitutions_in_order
    [where u = "js ''a ''" and cap = "js ''b''" and rest = "js '' c''"]
  have u1: "\<forall>c\<in>set (js ''a ''). c \<noteq> 0x2A \<and> c \<noteq> 0x5F"
    by (simp add: js_def)
  have u2: "\<forall>c\<in>set (js ''a ''). c \<noteq> 0x60"
    by (simp add: js_def)
  have c1: "\<forall>c\<in>set (js ''b''). c \<noteq> 0x2A \<and> \<not> isLineTerminator c"
    by (simp add: js_def isLineTerminator_def)
  have c2: "\<forall>c\<in>set (js ''b''). c \<noteq> 0x5F \<and> \<not> isLineTerminator c"
    by (simp add: js_def isLineTerminator_def)
  have c3: "js ''b'' \<noteq> []" "\<forall>c\<in>set (js ''b''). c \<noteq> 0x60"
    by (simp_all add: js_def)
  have h1: "lineClass (js ''x *y*'') = TextLine"
    by code_simp
  have h2: "matchOl (replace_code (replace_em (replace_bold (js ''1. *y*'')))) = Some (js ''<em>y</em>'')"
    by code_simp
  have h3: "matchOl (replace_code (replace_em (replace_bold (js ''- *y*'')))) = None"
    by code_simp
  have h4: "matchUl (replace_code (replace_em (replace_bold (js ''- *y*'')))) = Some (js ''<em>y</em>'')"
    by code_simp
  have a: "replace_bold (js ''a '' @ js ''**'' @ js ''b'' @ js ''**'' @ js '' c'') =
     js ''a '' @ js ''<strong>'' @ js ''b'' @ js ''</strong>'' @ replace_bold (js '' c'') \<and>
   replace_em (js ''a '' @ js ''*'' @ js ''b'' @ js ''*'' @ js '' c'') =
     js ''a '' @ js ''<em>'' @ js ''b'' @ js ''</em>'' @ replace_em (js '' c'')"
    using T u1 c1 by blast
  have b: "replace_bold (js ''a '' @ js ''__'' @ js ''b'' @ js ''__'' @ js '' c'') =
     js ''a '' @ js ''<strong>'' @ js ''b'' @ js ''</strong>'' @ replace_bold (js '' c'') \<and>
   replace_em (js ''a '' @ js ''_'' @ js ''b'' @ js ''_'' @ js '' c'') =
     js ''a '' @ js ''<em>'' @ js ''b'' @ js ''</em>'' @ replace_em (js '' c'')"
    using T u1 c2 by blast
  have c: "replace_code (js ''a '' @ js ''`'' @ js ''b'' @ js ''`'' @ js '' c'') =
     js ''a '' @ code_open @ js ''b'' @ js ''</code>'' @ replace_code (js '' c'')"
    using T u2 c3 by blast
  have d: "replace_bold (js ''a '') = js ''a '' \<and> replace_em (js ''a '') = js ''a ''"
    using T u1 by blast
  have e: "replace_code (js ''a '') = js ''a ''"
    using T u2 by blast
  have f: "renderLines [js ''x *y*''] =
     para_open @ replace_code (replace_em (replace_bold (js ''x *y*''))) @ js ''</p>''"
    using inline_substitutions_in_order [where rawLine = "js ''x *y*''"] h1 by blast
  have g: "renderLines [js ''1. *y*''] = ol_open @ js ''<li>'' @ js ''<em>y</em>'' @ js ''</li></ol>''"
    using inline_substitutions_in_order
      [where rawLine = "js ''1. *y*''" and item = "js ''<em>y</em>''"] h2 by blast
  have h: "renderLines [js ''- *y*''] = ul_open @ js ''<li>'' @ js ''<em>y</em>'' @ js ''</li></ul>''"
    using inline_substitutions_in_order
      [where rawLine = "js ''- *y*''" and item = "js ''<em>y</em>''"] h3 h4 by blast
  from a b c d e h1 f h2 g h3 h4 h show ?thesis
    by blast
qed

section \<open>Lists\<close>

lemma split_lines_Nil: "split_lines [] = [[]]"
  by (simp add: split_lines_def)

lemma lineClass_Nil: "lineClass [] = BlankLine"
  by (simp add: lineClass_def inline_def replace_bold_def replace_em_def replace_code_def
        match_bold_def match_em_def match_code_def match_delim_def matchOl_def matchUl_def
        trim_js_def js_def)

lemma render_three:
  assumes "boundary pre run" and "boundary (pre @ run) post"
  shows "renderLines (pre @ run @ post) = renderLines pre @ renderLines run @ renderLines post"
  using render_split [OF assms(2)] render_split [OF assms(1)] by simp

lemma boundary_three:
  assumes "run \<noteq> []" and "\<forall>l\<in>set run. lineClass l = c"
      and "pre \<noteq> [] \<longrightarrow> lineClass (last pre) \<noteq> c"
      and "post \<noteq> [] \<longrightarrow> lineClass (hd post) \<noteq> c"
  shows "boundary pre run \<and> boundary (pre @ run) post"
proof -
  have "lineClass (hd run) = c" "lineClass (last run) = c"
    using assms(1,2) by simp_all
  then show ?thesis
    using assms by (auto simp: boundary_def)
qed

lemma matchUl_marker:
  "m = 0x2A \<or> m = 0x2D \<Longrightarrow> matchOl (m # 0x20 # s) = None \<and>
     matchUl (m # 0x20 # s) = Some (takeWhile (\<lambda>x. \<not> isLineTerminator x) s)"
  by (auto simp: matchOl_def matchUl_def isWhiteSpace_def isLineTerminator_def isDigit_def)

lemma ex1: "renderMarkdown (js ''* a\<newline>- b'') = ul_open @ js ''<li>a</li><li>b</li></ul>''"
  by code_simp
lemma ex2: "renderMarkdown (js ''1. a\<newline>2. b'') = ol_open @ js ''<li>a</li><li>b</li></ol>''"
  by code_simp

lemma switch_step:
  assumes "listType st = Some t'" and "lineClass l = ListLine t''" and "t' \<noteq> t''"
  shows "step st l = \<lparr>html = html (flushPara st) @ list_close t' @ list_open t'' @ li (itemText l),
                       listType = Some t'', paraBuffer = []\<rparr>"
  using assms
  by (simp add: step_cases flushPara_def flushList_def Let_def list_close_def)

lemma inline_dash: "inline (js ''- '' @ s) = js ''- '' @ inline s"
proof -
  have b: "replace_bold (js ''- '' @ s) = js ''- '' @ replace_bold s" for s
    unfolding replace_bold_def
    by (rule replace_global_skip) (simp add: js_def match_bold_None)
  have e: "replace_em (js ''- '' @ s) = js ''- '' @ replace_em s" for s
    unfolding replace_em_def
    by (rule replace_global_skip) (simp add: js_def match_em_None)
  have c: "replace_code (js ''- '' @ s) = js ''- '' @ replace_code s" for s
    unfolding replace_code_def
    by (rule replace_global_skip) (simp add: js_def match_code_None)
  show ?thesis by (simp only: inline_def b e c)
qed

lemma dash_line:
  "lineClass (js ''- '' @ s) = ListLine ul \<and>
   itemText (js ''- '' @ s) = takeWhile (\<lambda>x. \<not> isLineTerminator x) (inline s)"
proof -
  have "inline (js ''- '' @ s) = 0x2D # 0x20 # inline s"
    by (simp add: inline_dash) (simp add: js_def)
  with matchUl_marker [of "0x2D" "inline s"] show ?thesis
    by (simp add: lineClass_def itemText_def)
qed

text \<open>
  C1, as amended. For every input text, each maximal run of consecutive list-item
  lines of one type (the lines before and after the run, if any, are not of that type)
  is rendered as exactly one list block: the opening tag of the type, one entry for each
  line of the run in input order, the closing tag; what comes before and after it is the
  rendering of the lines before and of the lines after. A line that, after the inline
  substitutions, starts with \<^verbatim>\<open>* \<close> or with \<^verbatim>\<open>- \<close> is of the unordered type in both
  cases, and an input line that starts with \<^verbatim>\<open>- \<close> always is. So \<^verbatim>\<open>"* a\n- b"\<close> gives
  one unordered list with the items a, b, and \<^verbatim>\<open>"1. a\n2. b"\<close> gives one ordered list
  with the items a, b. When a list of one
  type is open and the next line is a list item of the other type, the open list is closed
  and a new list is opened, with no blank line needed.
\<close>

theorem list_runs_one_block:
  "(split_lines input = pre @ run @ post \<and> run \<noteq> [] \<and>
    (\<forall>l\<in>set run. lineClass l = ListLine t) \<and>
    (pre \<noteq> [] \<longrightarrow> lineClass (last pre) \<noteq> ListLine t) \<and>
    (post \<noteq> [] \<longrightarrow> lineClass (hd post) \<noteq> ListLine t) \<longrightarrow>
      renderMarkdown input =
        renderLines pre @ list_open t @ concat (map (\<lambda>l. li (itemText l)) run) @ list_close t @
        renderLines post) \<and>
   (inline rawLine = js ''* '' @ s \<or> inline rawLine = js ''- '' @ s \<longrightarrow>
      lineClass rawLine = ListLine ul \<and>
      itemText rawLine = takeWhile (\<lambda>x. \<not> isLineTerminator x) s) \<and>
   lineClass (js ''- '' @ s') = ListLine ul \<and>
   itemText (js ''- '' @ s') = takeWhile (\<lambda>x. \<not> isLineTerminator x) (inline s') \<and>
   renderMarkdown (js ''* a\<newline>- b'') = ul_open @ js ''<li>a</li><li>b</li></ul>'' \<and>
   renderMarkdown (js ''1. a\<newline>2. b'') = ol_open @ js ''<li>a</li><li>b</li></ol>'' \<and>
   (listType st = Some t' \<and> lineClass l = ListLine t'' \<and> t' \<noteq> t'' \<longrightarrow>
      step st l =
        \<lparr>html = html (flushPara st) @ list_close t' @ list_open t'' @ li (itemText l),
         listType = Some t'', paraBuffer = []\<rparr>)"
proof (intro conjI impI)
  assume h: "split_lines input = pre @ run @ post \<and> run \<noteq> [] \<and>
    (\<forall>l\<in>set run. lineClass l = ListLine t) \<and>
    (pre \<noteq> [] \<longrightarrow> lineClass (last pre) \<noteq> ListLine t) \<and>
    (post \<noteq> [] \<longrightarrow> lineClass (hd post) \<noteq> ListLine t)"
  have ne: "input \<noteq> []"
  proof
    assume "input = []"
    with h have "pre @ run @ post = [[]]" by (simp add: split_lines_Nil)
    with h have "run = [[]]" by (auto simp: append_eq_Cons_conv Cons_eq_append_conv)
    with h show False by (simp add: lineClass_Nil)
  qed
  from h have b: "boundary pre run \<and> boundary (pre @ run) post"
    by (intro boundary_three [where c = "ListLine t"]) simp_all
  have "renderLines (pre @ run @ post) = renderLines pre @ renderLines run @ renderLines post"
    using b by (intro render_three) simp_all
  moreover have "renderLines run = list_open t @ concat (map (\<lambda>l. li (itemText l)) run) @ list_close t"
    using h by (intro list_run_render) simp_all
  ultimately show "renderMarkdown input =
        renderLines pre @ list_open t @ concat (map (\<lambda>l. li (itemText l)) run) @ list_close t @
        renderLines post"
    using h ne by (simp add: renderMarkdown_def)
next
  assume "inline rawLine = js ''* '' @ s \<or> inline rawLine = js ''- '' @ s"
  then have "\<exists>m. (m = 0x2A \<or> m = 0x2D) \<and> inline rawLine = m # 0x20 # s"
    by (auto simp: js_def)
  then obtain m where m: "m = 0x2A \<or> m = 0x2D" "inline rawLine = m # 0x20 # s" by blast
  from matchUl_marker [OF m(1), of s] m(2)
  show "lineClass rawLine = ListLine ul" "itemText rawLine = takeWhile (\<lambda>x. \<not> isLineTerminator x) s"
    by (simp_all add: lineClass_def itemText_def)
next
  show "lineClass (js ''- '' @ s') = ListLine ul"
    by (rule dash_line [THEN conjunct1])
  show "itemText (js ''- '' @ s') = takeWhile (\<lambda>x. \<not> isLineTerminator x) (inline s')"
    by (rule dash_line [THEN conjunct2])
  show "renderMarkdown (js ''* a\<newline>- b'') = ul_open @ js ''<li>a</li><li>b</li></ul>''"
    by (rule ex1)
  show "renderMarkdown (js ''1. a\<newline>2. b'') = ol_open @ js ''<li>a</li><li>b</li></ol>''"
    by (rule ex2)
next
  assume "listType st = Some t' \<and> lineClass l = ListLine t'' \<and> t' \<noteq> t''"
  then show "step st l =
        \<lparr>html = html (flushPara st) @ list_close t' @ list_open t'' @ li (itemText l),
         listType = Some t'', paraBuffer = []\<rparr>"
    by (intro switch_step) simp_all
qed

text \<open>
  C1 as stated fails for an input line that starts with \<^verbatim>\<open>* \<close> and holds a second
  asterisk: the emphasis substitution, which runs before the classification, takes the
  marker, and the line is rendered as a paragraph, not as a list item.
\<close>

theorem star_marker_counterexample:
  "lineClass (js ''* a*'') \<noteq> ListLine ul \<and>
   renderMarkdown (js ''* a*\<newline>- b'') =
     para_open @ js ''<em> a</em></p>'' @ ul_open @ js ''<li>b</li></ul>''"
  by code_simp

theorem list_runs_one_block_witness:
  "split_lines (js ''x\<newline>* a\<newline>- b\<newline>1. c'') = [js ''x''] @ [js ''* a'', js ''- b''] @ [js ''1. c''] \<and>
   lineClass (last [js ''x'']) \<noteq> ListLine ul \<and>
   lineClass (hd [js ''1. c'']) \<noteq> ListLine ul \<and>
   renderMarkdown (js ''x\<newline>* a\<newline>- b\<newline>1. c'') =
     renderLines [js ''x''] @ list_open ul @
     concat (map (\<lambda>l. li (itemText l)) [js ''* a'', js ''- b'']) @ list_close ul @
     renderLines [js ''1. c''] \<and>
   inline (js ''* a'') = js ''* '' @ js ''a'' \<and>
   lineClass (js ''* a'') = ListLine ul \<and>
   itemText (js ''* a'') = takeWhile (\<lambda>x. \<not> isLineTerminator x) (js ''a'') \<and>
   lineClass (js ''- b'') = ListLine ul \<and>
   step \<lparr>html = [], listType = Some ol, paraBuffer = []\<rparr> (js ''- b'') =
     \<lparr>html = html (flushPara \<lparr>html = [], listType = Some ol, paraBuffer = []\<rparr>) @
             list_close ol @ list_open ul @ li (itemText (js ''- b'')),
      listType = Some ul, paraBuffer = []\<rparr>"
proof -
  have h1: "split_lines (js ''x\<newline>* a\<newline>- b\<newline>1. c'') = [js ''x''] @ [js ''* a'', js ''- b''] @ [js ''1. c'']"
    by code_simp
  have h2: "\<forall>l\<in>set [js ''* a'', js ''- b'']. lineClass l = ListLine ul"
    by code_simp
  have h3: "lineClass (last [js ''x'']) \<noteq> ListLine ul"
    by code_simp
  have h4: "lineClass (hd [js ''1. c'']) \<noteq> ListLine ul"
    by code_simp
  have h5: "inline (js ''* a'') = js ''* '' @ js ''a''"
    by code_simp
  have h6: "listType \<lparr>html = [], listType = Some ol, paraBuffer = []\<rparr> = Some ol"
    by simp
  have h7: "lineClass (js ''- b'') = ListLine ul"
    by code_simp
  have h8: "ol \<noteq> ul"
    by simp
  have h9: "[js ''* a'', js ''- b''] \<noteq> []"
    by simp
  note T = list_runs_one_block
    [where input = "js ''x\<newline>* a\<newline>- b\<newline>1. c''" and pre = "[js ''x'']"
       and run = "[js ''* a'', js ''- b'']" and post = "[js ''1. c'']" and t = ul
       and rawLine = "js ''* a''" and s = "js ''a''"
       and st = "\<lparr>html = [], listType = Some ol, paraBuffer = []\<rparr>" and t' = ol
       and l = "js ''- b''" and t'' = ul]
  from T h1 h2 h3 h4 h5 h6 h7 h8 h9 show ?thesis
    by blast
qed


section \<open>Paragraphs\<close>

lemma text_step:
  assumes "lineClass l = TextLine"
  shows "step st l =
         (flushList st)\<lparr>paraBuffer :=
            paraBuffer st @ (if paraBuffer st \<noteq> [] then js ''<br/>'' else []) @ inline l\<rparr>"
  using assms by (simp add: step_cases flushList_def split: option.splits)

lemma blank_step:
  assumes "lineClass l = BlankLine"
  shows "step st l = flushPara (flushList st)"
  using assms by (simp add: step_cases)

lemma blank_step_pending:
  assumes "lineClass l = BlankLine" and "listType st = None" and "paraBuffer st \<noteq> []"
  shows "step st l = st\<lparr>html := html st @ para_open @ paraBuffer st @ js ''</p>'', paraBuffer := []\<rparr>"
  using assms by (simp add: step_cases flushPara_def flushList_def)

lemma ex_para1: "renderMarkdown (js ''a\<newline>b'') = para_open @ js ''a<br/>b</p>''"
  by code_simp

lemma ex_para2: "renderMarkdown (js ''a\<newline>\<newline>b'') = para_open @ js ''a</p>'' @ para_open @ js ''b</p>''"
  by code_simp

text \<open>
  C2. For every input text, a maximal run of consecutive plain lines that are not blank
  (the last branch of the loop body with \<^verbatim>\<open>line.trim()\<close> not empty; the lines before
  and after the run, if any, are list items or blank) is rendered as exactly one
  paragraph block, its lines joined by the line-break marker. In the loop, such a line
  is appended to the buffer, after a line-break marker when the buffer is not empty, and
  a blank line flushes the buffer as one paragraph block. So \<^verbatim>\<open>"a\nb"\<close> is one
  paragraph and \<^verbatim>\<open>"a\n\nb"\<close> is two.
\<close>

theorem paragraph_runs_one_block:
  "(split_lines input = pre @ run @ post \<and> run \<noteq> [] \<and>
    (\<forall>l\<in>set run. lineClass l = TextLine) \<and>
    (pre \<noteq> [] \<longrightarrow> lineClass (last pre) \<noteq> TextLine) \<and>
    (post \<noteq> [] \<longrightarrow> lineClass (hd post) \<noteq> TextLine) \<longrightarrow>
      renderMarkdown input =
        renderLines pre @ para_open @ join_br (map inline run) @ js ''</p>'' @ renderLines post) \<and>
   (lineClass l = TextLine \<longrightarrow>
      step st l =
        (flushList st)\<lparr>paraBuffer :=
           paraBuffer st @ (if paraBuffer st \<noteq> [] then js ''<br/>'' else []) @ inline l\<rparr>) \<and>
   (lineClass l' = BlankLine \<longrightarrow> step st l' = flushPara (flushList st)) \<and>
   (lineClass l' = BlankLine \<and> listType st = None \<and> paraBuffer st \<noteq> [] \<longrightarrow>
      step st l' =
        st\<lparr>html := html st @ para_open @ paraBuffer st @ js ''</p>'', paraBuffer := []\<rparr>) \<and>
   renderMarkdown (js ''a\<newline>b'') = para_open @ js ''a<br/>b</p>'' \<and>
   renderMarkdown (js ''a\<newline>\<newline>b'') = para_open @ js ''a</p>'' @ para_open @ js ''b</p>''"
proof (intro conjI impI)
  assume h: "split_lines input = pre @ run @ post \<and> run \<noteq> [] \<and>
    (\<forall>l\<in>set run. lineClass l = TextLine) \<and>
    (pre \<noteq> [] \<longrightarrow> lineClass (last pre) \<noteq> TextLine) \<and>
    (post \<noteq> [] \<longrightarrow> lineClass (hd post) \<noteq> TextLine)"
  have ne: "input \<noteq> []"
  proof
    assume "input = []"
    with h have "pre @ run @ post = [[]]" by (simp add: split_lines_Nil)
    with h have "run = [[]]" by (auto simp: append_eq_Cons_conv Cons_eq_append_conv)
    with h show False by (simp add: lineClass_Nil)
  qed
  from h have b: "boundary pre run \<and> boundary (pre @ run) post"
    by (intro boundary_three [where c = TextLine]) simp_all
  have "renderLines (pre @ run @ post) = renderLines pre @ renderLines run @ renderLines post"
    using b by (intro render_three) simp_all
  moreover have "renderLines run = para_open @ join_br (map inline run) @ js ''</p>''"
    using h by (intro text_run_render) simp_all
  ultimately show "renderMarkdown input =
        renderLines pre @ para_open @ join_br (map inline run) @ js ''</p>'' @ renderLines post"
    using h ne by (simp add: renderMarkdown_def)
next
  assume "lineClass l = TextLine"
  then show "step st l =
        (flushList st)\<lparr>paraBuffer :=
           paraBuffer st @ (if paraBuffer st \<noteq> [] then js ''<br/>'' else []) @ inline l\<rparr>"
    by (rule text_step)
next
  assume "lineClass l' = BlankLine"
  then show "step st l' = flushPara (flushList st)"
    by (rule blank_step)
next
  assume "lineClass l' = BlankLine \<and> listType st = None \<and> paraBuffer st \<noteq> []"
  then show "step st l' =
        st\<lparr>html := html st @ para_open @ paraBuffer st @ js ''</p>'', paraBuffer := []\<rparr>"
    by (intro blank_step_pending) simp_all
next
  show "renderMarkdown (js ''a\<newline>b'') = para_open @ js ''a<br/>b</p>''"
    by (rule ex_para1)
  show "renderMarkdown (js ''a\<newline>\<newline>b'') = para_open @ js ''a</p>'' @ para_open @ js ''b</p>''"
    by (rule ex_para2)
qed

theorem paragraph_runs_one_block_witness:
  "split_lines (js ''- x\<newline>a\<newline>b\<newline>\<newline>c'') = [js ''- x''] @ [js ''a'', js ''b''] @ [[], js ''c''] \<and>
   lineClass (js ''a'') = TextLine \<and> lineClass (js ''b'') = TextLine \<and>
   lineClass (last [js ''- x'']) \<noteq> TextLine \<and>
   lineClass (hd [[], js ''c'']) \<noteq> TextLine \<and>
   renderMarkdown (js ''- x\<newline>a\<newline>b\<newline>\<newline>c'') =
     renderLines [js ''- x''] @ para_open @ join_br (map inline [js ''a'', js ''b'']) @ js ''</p>'' @
     renderLines [[], js ''c''] \<and>
   step \<lparr>html = [], listType = None, paraBuffer = js ''a''\<rparr> (js ''b'') =
     (flushList \<lparr>html = [], listType = None, paraBuffer = js ''a''\<rparr>)
       \<lparr>paraBuffer := js ''a'' @ js ''<br/>'' @ inline (js ''b'')\<rparr> \<and>
   lineClass [] = BlankLine \<and>
   step \<lparr>html = [], listType = None, paraBuffer = js ''a''\<rparr> [] =
     \<lparr>html = para_open @ js ''a'' @ js ''</p>'', listType = None, paraBuffer = []\<rparr>"
proof -
  let ?st = "\<lparr>html = [], listType = None, paraBuffer = js ''a''\<rparr>"
  have h1: "split_lines (js ''- x\<newline>a\<newline>b\<newline>\<newline>c'') = [js ''- x''] @ [js ''a'', js ''b''] @ [[], js ''c'']"
    by code_simp
  have h2: "\<forall>l\<in>set [js ''a'', js ''b'']. lineClass l = TextLine"
    by code_simp
  have h3: "lineClass (last [js ''- x'']) \<noteq> TextLine"
    by code_simp
  have h4: "lineClass (hd [[], js ''c'']) \<noteq> TextLine"
    by code_simp
  have h5: "lineClass (js ''b'') = TextLine"
    by code_simp
  have h6: "lineClass [] = BlankLine"
    by (rule lineClass_Nil)
  have h7: "listType ?st = None" "paraBuffer ?st \<noteq> []" "paraBuffer ?st = js ''a''" "html ?st = []"
    by (simp_all add: js_def)
  have h8: "[js ''a'', js ''b''] \<noteq> []"
    by simp
  note T = paragraph_runs_one_block
    [where input = "js ''- x\<newline>a\<newline>b\<newline>\<newline>c''" and pre = "[js ''- x'']"
       and run = "[js ''a'', js ''b'']" and post = "[[], js ''c'']"
       and l = "js ''b''" and st = ?st and l' = "[]"]
  have a: "renderMarkdown (js ''- x\<newline>a\<newline>b\<newline>\<newline>c'') =
     renderLines [js ''- x''] @ para_open @ join_br (map inline [js ''a'', js ''b'']) @ js ''</p>'' @
     renderLines [[], js ''c'']"
    using T h1 h2 h3 h4 h8 by blast
  have ne: "js ''a'' \<noteq> []"
    by (simp add: js_def)
  have b0: "step ?st (js ''b'') =
     (flushList ?st)\<lparr>paraBuffer :=
        paraBuffer ?st @ (if paraBuffer ?st \<noteq> [] then js ''<br/>'' else []) @ inline (js ''b'')\<rparr>"
    using T h5 by blast
  have b: "step ?st (js ''b'') =
     (flushList ?st)\<lparr>paraBuffer := js ''a'' @ js ''<br/>'' @ inline (js ''b'')\<rparr>"
    using ne by (simp add: b0)
  have c0: "step ?st [] =
     ?st\<lparr>html := html ?st @ para_open @ paraBuffer ?st @ js ''</p>'', paraBuffer := []\<rparr>"
    using T h6 h7(1,2) by blast
  have c: "step ?st [] = \<lparr>html = para_open @ js ''a'' @ js ''</p>'', listType = None, paraBuffer = []\<rparr>"
    by (simp add: c0)
  from a b c h1 h2 h3 h4 h6 show ?thesis by simp
qed

section \<open>Lists and paragraphs exclude each other\<close>










section \<open>The suggestion rotator\<close>

lemma owned_fresh: "owned fresh"
  by (simp add: owned_def fresh_def)

lemma runCleanup_empty: "owned c \<Longrightarrow> intervals (runCleanup c) = Map.empty"
proof (cases "cleanup c")
  case None
  assume "owned c"
  with None show ?thesis by (simp add: owned_def runCleanup_def)
next
  case (Some i)
  assume "owned c"
  with Some have "dom (intervals c) = {i}" by (simp add: owned_def)
  then have "dom ((intervals c)(i := None)) = {}" by simp
  then have "(intervals c)(i := None) = Map.empty" by (rule dom_eq_empty_conv [THEN iffD1])
  then show ?thesis using Some by (simp add: runCleanup_def clearInterval_def)
qed

lemma runCleanup_fields:
  "cleanup (runCleanup c) = None" "currentSuggestion (runCleanup c) = currentSuggestion c"
  "nextId (runCleanup c) = nextId c"
  by (simp_all add: runCleanup_def clearInterval_def split: option.splits)

lemma owned_runCleanup: "owned c \<Longrightarrow> owned (runCleanup c)"
  by (simp add: owned_def [of "runCleanup c"] runCleanup_empty runCleanup_fields)

lemma commit_intervals:
  assumes "owned c"
  shows "intervals (fire c (Commit qs)) =
         (if qs = [] then Map.empty
          else [nextId c \<mapsto> \<lparr>questions = qs, suggestionIndex = 0\<rparr>])"
  using runCleanup_empty [OF assms]
  by (simp add: suggestionEffect_def Let_def runCleanup_fields)

lemma commit_fields:
  "cleanup (fire c (Commit qs)) = (if qs = [] then None else Some (nextId c))"
  "currentSuggestion (fire c (Commit qs)) = (if qs = [] then [] else qs ! 0)"
  by (simp_all add: suggestionEffect_def Let_def runCleanup_fields)

lemma owned_tick: "owned c \<Longrightarrow> owned (tick i c)"
  by (auto simp: owned_def tick_def Let_def split: option.splits)

lemma owned_fire: "owned c \<Longrightarrow> owned (fire c e)"
proof (cases e)
  case (Commit qs)
  assume "owned c"
  then show ?thesis
    unfolding Commit owned_def [of "fire c (Commit qs)"]
    by (simp add: commit_intervals commit_fields del: fire.simps)
next
  case (Tick i)
  assume "owned c"
  then show ?thesis unfolding Tick by (simp add: owned_tick)
next
  case Unmount
  assume "owned c"
  then show ?thesis unfolding Unmount by (simp add: owned_runCleanup)
qed

lemma owned_foldl: "owned c \<Longrightarrow> owned (foldl fire c evs)"
  by (induction evs arbitrary: c) (simp_all add: owned_fire)

lemma owned_run: "owned (runEvents evs)"
  by (simp add: runEvents_def owned_foldl owned_fresh)

lemma inRange_fresh: "inRange fresh"
  by (simp add: inRange_def fresh_def)

lemma inRange_runCleanup: "inRange c \<Longrightarrow> inRange (runCleanup c)"
  by (auto simp: inRange_def runCleanup_def clearInterval_def split: option.splits if_splits)

lemma inRange_effect: "inRange c \<Longrightarrow> inRange (suggestionEffect qs c)"
  by (auto simp: inRange_def suggestionEffect_def Let_def split: if_splits)

lemma inRange_tick: "inRange c \<Longrightarrow> inRange (tick i c)"
proof (cases "intervals c i")
  case None
  assume "inRange c"
  with None show ?thesis by (simp add: tick_def)
next
  case (Some t)
  assume a: "inRange c"
  with Some have "suggestionIndex t < length (questions t)" by (simp add: inRange_def)
  then have "0 < length (questions t)" by (rule gr_implies_not_zero [THEN neq0_conv [THEN iffD1]])
  then have "(suggestionIndex t + 1) mod length (questions t) < length (questions t)"
    by (rule mod_less_divisor)
  with a Some show ?thesis
    by (auto simp: inRange_def tick_def Let_def split: if_splits)
qed

lemma inRange_fire: "inRange c \<Longrightarrow> inRange (fire c e)"
  by (cases e) (simp_all add: inRange_runCleanup inRange_effect inRange_tick)

lemma inRange_foldl: "inRange c \<Longrightarrow> inRange (foldl fire c evs)"
  by (induction evs arbitrary: c) (simp_all add: inRange_fire)

lemma inRange_run: "inRange (runEvents evs)"
  by (simp add: runEvents_def inRange_foldl inRange_fresh)

lemma tick_pending:
  assumes "intervals c i = Some t"
  shows "tick i c =
         c\<lparr>intervals := (intervals c)(i \<mapsto>
               t\<lparr>suggestionIndex := (suggestionIndex t + 1) mod length (questions t)\<rparr>),
           currentSuggestion :=
             questions t ! ((suggestionIndex t + 1) mod length (questions t))\<rparr>"
  using assms by (simp add: tick_def Let_def)

lemma ticks_from:
  assumes "intervals c i = Some \<lparr>questions = qs, suggestionIndex = k\<rparr>" and "qs \<noteq> []"
  shows "intervals ((tick i ^^ n) c) i = Some \<lparr>questions = qs, suggestionIndex = (k + n) mod length qs\<rparr> \<or> n = 0"
    and "0 < n \<Longrightarrow> currentSuggestion ((tick i ^^ n) c) = qs ! ((k + n) mod length qs)"
proof -
  have "n = 0 \<or> (intervals ((tick i ^^ n) c) i =
          Some \<lparr>questions = qs, suggestionIndex = (k + n) mod length qs\<rparr> \<and>
        currentSuggestion ((tick i ^^ n) c) = qs ! ((k + n) mod length qs))"
  proof (induction n)
    case 0
    show ?case by simp
  next
    case (Suc n)
    show ?case
    proof (cases "n = 0")
      case True
      then show ?thesis using assms(1) by (simp add: tick_pending)
    next
      case False
      with Suc have "intervals ((tick i ^^ n) c) i =
          Some \<lparr>questions = qs, suggestionIndex = (k + n) mod length qs\<rparr>" by simp
      then show ?thesis
        by (simp add: tick_pending mod_Suc_eq)
    qed
  qed
  then show "intervals ((tick i ^^ n) c) i = Some \<lparr>questions = qs, suggestionIndex = (k + n) mod length qs\<rparr> \<or> n = 0"
    and "0 < n \<Longrightarrow> currentSuggestion ((tick i ^^ n) c) = qs ! ((k + n) mod length qs)"
    by auto
qed


lemma ticks_idle:
  assumes "intervals c = Map.empty"
  shows "foldl fire c (map Tick ids) = c"
proof (induction ids)
  case Nil
  show ?case by simp
next
  case (Cons i ids)
  have "tick i c = c" using assms by (simp add: tick_def)
  with Cons show ?case by simp
qed

lemma ex_rotation:
  "currentSuggestion (fire fresh (Commit [js ''x'', js ''y'', js ''z''])) = js ''x''"
  "currentSuggestion (tick 0 (fire fresh (Commit [js ''x'', js ''y'', js ''z'']))) = js ''y''"
  "currentSuggestion (tick 0 (tick 0 (fire fresh (Commit [js ''x'', js ''y'', js ''z''])))) = js ''z''"
  "currentSuggestion (tick 0 (tick 0 (tick 0 (fire fresh (Commit [js ''x'', js ''y'', js ''z'']))))) =
     js ''x''"
  by (simp_all add: fresh_def runCleanup_def suggestionEffect_def tick_def Let_def)

text \<open>
  C5. When the effect is run with a list that is not empty, at any point of the
  component's life, the current suggestion becomes the first element of the list before
  any tick, and an interval is pending whose counter is 0; after \<open>n\<close> ticks of that
  interval the counter is \<open>n mod length\<close> and the current suggestion is the element at
  that index. A tick of any pending interval moves its counter, which is always an index
  into its list, to the next index modulo the length and sets the current suggestion to
  the element there. For the list x, y, z the value before any tick is x, and after one,
  two and three ticks it is y, z and x.
\<close>

theorem suggestion_rotation:
  "(exampleQuestions \<noteq> [] \<longrightarrow>
      currentSuggestion (fire (runEvents evs) (Commit exampleQuestions)) = hd exampleQuestions \<and>
      intervals (fire (runEvents evs) (Commit exampleQuestions)) (nextId (runEvents evs)) =
        Some \<lparr>questions = exampleQuestions, suggestionIndex = 0\<rparr> \<and>
      currentSuggestion
        ((tick (nextId (runEvents evs)) ^^ n) (fire (runEvents evs) (Commit exampleQuestions))) =
        exampleQuestions ! (n mod length exampleQuestions) \<and>
      map_option suggestionIndex
        (intervals
          ((tick (nextId (runEvents evs)) ^^ n) (fire (runEvents evs) (Commit exampleQuestions)))
          (nextId (runEvents evs))) =
        Some (n mod length exampleQuestions)) \<and>
   (intervals (runEvents evs) i = Some t \<longrightarrow>
      suggestionIndex t < length (questions t) \<and>
      tick i (runEvents evs) =
        (runEvents evs)
          \<lparr>intervals := (intervals (runEvents evs))(i \<mapsto>
              t\<lparr>suggestionIndex := (suggestionIndex t + 1) mod length (questions t)\<rparr>),
           currentSuggestion :=
             questions t ! ((suggestionIndex t + 1) mod length (questions t))\<rparr>) \<and>
   currentSuggestion (fire fresh (Commit [js ''x'', js ''y'', js ''z''])) = js ''x'' \<and>
   currentSuggestion (tick 0 (fire fresh (Commit [js ''x'', js ''y'', js ''z'']))) = js ''y'' \<and>
   currentSuggestion (tick 0 (tick 0 (fire fresh (Commit [js ''x'', js ''y'', js ''z''])))) =
     js ''z'' \<and>
   currentSuggestion
     (tick 0 (tick 0 (tick 0 (fire fresh (Commit [js ''x'', js ''y'', js ''z'']))))) = js ''x''"
proof -
  let ?c = "runEvents evs"
  let ?start = "fire ?c (Commit exampleQuestions)"
  let ?i = "nextId ?c"
  have A: "currentSuggestion ?start = hd exampleQuestions \<and>
      intervals ?start ?i = Some \<lparr>questions = exampleQuestions, suggestionIndex = 0\<rparr> \<and>
      currentSuggestion ((tick ?i ^^ n) ?start) = exampleQuestions ! (n mod length exampleQuestions) \<and>
      map_option suggestionIndex (intervals ((tick ?i ^^ n) ?start) ?i) =
        Some (n mod length exampleQuestions)"
    if ne: "exampleQuestions \<noteq> []"
  proof -
    have cur: "currentSuggestion ?start = hd exampleQuestions"
      using ne by (simp add: commit_fields hd_conv_nth del: fire.simps)
    have pend: "intervals ?start ?i = Some \<lparr>questions = exampleQuestions, suggestionIndex = 0\<rparr>"
      using ne by (simp add: commit_intervals [OF owned_run] del: fire.simps)
    note t = ticks_from [OF pend ne, of n]
    show ?thesis
    proof (cases "n = 0")
      case True
      then show ?thesis using cur pend ne by (simp add: hd_conv_nth del: fire.simps)
    next
      case False
      then have pos: "0 < n" by simp
      from t(1) False have t1: "intervals ((tick ?i ^^ n) ?start) ?i =
          Some \<lparr>questions = exampleQuestions, suggestionIndex = (0 + n) mod length exampleQuestions\<rparr>"
        by blast
      have t2: "currentSuggestion ((tick ?i ^^ n) ?start) =
          exampleQuestions ! ((0 + n) mod length exampleQuestions)"
        by (rule t(2) [OF pos])
      have t3: "map_option suggestionIndex (intervals ((tick ?i ^^ n) ?start) ?i) =
          Some (n mod length exampleQuestions)"
        unfolding t1 by simp
      from cur pend t2 t3 show ?thesis
        by (simp only: add_0 simp_thms)
    qed
  qed
  have B: "suggestionIndex t < length (questions t) \<and>
      tick i ?c =
        ?c\<lparr>intervals := (intervals ?c)(i \<mapsto>
              t\<lparr>suggestionIndex := (suggestionIndex t + 1) mod length (questions t)\<rparr>),
           currentSuggestion :=
             questions t ! ((suggestionIndex t + 1) mod length (questions t))\<rparr>"
    if p: "intervals ?c i = Some t"
  proof
    show "suggestionIndex t < length (questions t)"
      using inRange_run [of evs] p unfolding inRange_def by blast
    show "tick i ?c =
        ?c\<lparr>intervals := (intervals ?c)(i \<mapsto>
              t\<lparr>suggestionIndex := (suggestionIndex t + 1) mod length (questions t)\<rparr>),
           currentSuggestion :=
             questions t ! ((suggestionIndex t + 1) mod length (questions t))\<rparr>"
      using p by (rule tick_pending)
  qed
  from A B ex_rotation show ?thesis by blast
qed

theorem suggestion_rotation_witness:
  "[js ''p'', js ''q''] \<noteq> [] \<and>
   currentSuggestion (fire (runEvents [Commit [js ''a'']]) (Commit [js ''p'', js ''q''])) =
     hd [js ''p'', js ''q''] \<and>
   currentSuggestion
     ((tick (nextId (runEvents [Commit [js ''a'']])) ^^ 3)
        (fire (runEvents [Commit [js ''a'']]) (Commit [js ''p'', js ''q'']))) =
     [js ''p'', js ''q''] ! (3 mod length [js ''p'', js ''q'']) \<and>
   intervals (runEvents [Commit [js ''p'', js ''q'']]) 0 =
     Some \<lparr>questions = [js ''p'', js ''q''], suggestionIndex = 0\<rparr> \<and>
   suggestionIndex \<lparr>questions = [js ''p'', js ''q''], suggestionIndex = 0\<rparr> <
     length (questions \<lparr>questions = [js ''p'', js ''q''], suggestionIndex = 0\<rparr>)"
proof -
  have ne: "[js ''p'', js ''q''] \<noteq> []"
    by simp
  have p: "intervals (runEvents [Commit [js ''p'', js ''q'']]) 0 =
     Some \<lparr>questions = [js ''p'', js ''q''], suggestionIndex = 0\<rparr>"
    by (simp add: runEvents_def fresh_def runCleanup_def suggestionEffect_def Let_def)
  note T = suggestion_rotation
    [where exampleQuestions = "[js ''p'', js ''q'']" and evs = "[Commit [js ''a'']]" and n = 3]
  note U = suggestion_rotation
    [where evs = "[Commit [js ''p'', js ''q'']]" and i = 0
       and t = "\<lparr>questions = [js ''p'', js ''q''], suggestionIndex = 0\<rparr>"]
  from T U ne p show ?thesis by blast
qed

text \<open>
  C6. Under the contract of \<^verbatim>\<open>useEffect\<close> (the cleanup of the last run is called
  before the effect runs again for another list, and when the component goes away), after
  any sequence of list changes, ticks and disposal at most one interval is pending, and it
  is the one the stored cleanup clears. The cleanup leaves no interval pending, so a list
  change starts its interval when none is pending, and after disposal none is pending and
  no tick changes the state. On a change to a list that is not empty the only pending
  interval is the new one with counter 0, and the current suggestion is the first element
  of the new list.
\<close>

theorem timers_never_stack:
  "card (dom (intervals (runEvents evs))) \<le> 1 \<and>
   dom (intervals (runEvents evs)) = set_option (cleanup (runEvents evs)) \<and>
   intervals (runCleanup (runEvents evs)) = Map.empty \<and>
   fire (runEvents evs) (Commit qs) = suggestionEffect qs (runCleanup (runEvents evs)) \<and>
   intervals (fire (runEvents evs) (Commit qs)) =
     (if qs = [] then Map.empty
      else [nextId (runEvents evs) \<mapsto> \<lparr>questions = qs, suggestionIndex = 0\<rparr>]) \<and>
   intervals (fire (runEvents evs) Unmount) = Map.empty \<and>
   foldl fire (fire (runEvents evs) Unmount) (map Tick ids) = fire (runEvents evs) Unmount \<and>
   (qs \<noteq> [] \<longrightarrow> currentSuggestion (fire (runEvents evs) (Commit qs)) = hd qs)"
proof (intro conjI impI)
  have o: "dom (intervals (runEvents evs)) = set_option (cleanup (runEvents evs))"
    using owned_run [of evs] by (simp add: owned_def)
  show "dom (intervals (runEvents evs)) = set_option (cleanup (runEvents evs))"
    by (rule o)
  show "card (dom (intervals (runEvents evs))) \<le> 1"
    unfolding o by (cases "cleanup (runEvents evs)") simp_all
  show e: "intervals (runCleanup (runEvents evs)) = Map.empty"
    by (rule runCleanup_empty [OF owned_run])
  show "fire (runEvents evs) (Commit qs) = suggestionEffect qs (runCleanup (runEvents evs))"
    by simp
  show "intervals (fire (runEvents evs) (Commit qs)) =
     (if qs = [] then Map.empty
      else [nextId (runEvents evs) \<mapsto> \<lparr>questions = qs, suggestionIndex = 0\<rparr>])"
    by (rule commit_intervals [OF owned_run])
  from e show u: "intervals (fire (runEvents evs) Unmount) = Map.empty"
    by simp
  show "foldl fire (fire (runEvents evs) Unmount) (map Tick ids) = fire (runEvents evs) Unmount"
    by (rule ticks_idle [OF u])
next
  assume "qs \<noteq> []"
  then show "currentSuggestion (fire (runEvents evs) (Commit qs)) = hd qs"
    by (simp add: commit_fields hd_conv_nth del: fire.simps)
qed

theorem timers_never_stack_witness:
  "[js ''p''] \<noteq> [] \<and>
   currentSuggestion (fire (runEvents [Commit [js ''a'', js ''b''], Tick 0]) (Commit [js ''p''])) =
     hd [js ''p''] \<and>
   card (dom (intervals (runEvents [Commit [js ''a'', js ''b''], Tick 0]))) \<le> 1 \<and>
   intervals (fire (runEvents [Commit [js ''a'', js ''b''], Tick 0]) Unmount) = Map.empty \<and>
   foldl fire (fire (runEvents [Commit [js ''a'', js ''b''], Tick 0]) Unmount) (map Tick [0, 1]) =
     fire (runEvents [Commit [js ''a'', js ''b''], Tick 0]) Unmount"
proof -
  have ne: "[js ''p''] \<noteq> []"
    by simp
  note T = timers_never_stack
    [where evs = "[Commit [js ''a'', js ''b''], Tick 0]" and qs = "[js ''p'']" and ids = "[0, 1]"]
  from T ne show ?thesis by blast
qed

text \<open>
  C7. Run with the empty list, the effect sets the current suggestion to the empty
  string, starts no interval and returns no cleanup. At any point of the component's life
  this leaves no interval pending, and no sequence of ticks changes the state after it: the
  empty list is a steady state, and nothing fails.
\<close>

theorem empty_list_is_steady:
  "suggestionEffect [] c = c\<lparr>currentSuggestion := [], cleanup := None\<rparr> \<and>
   currentSuggestion (fire (runEvents evs) (Commit [])) = [] \<and>
   cleanup (fire (runEvents evs) (Commit [])) = None \<and>
   intervals (fire (runEvents evs) (Commit [])) = Map.empty \<and>
   foldl fire (fire (runEvents evs) (Commit [])) (map Tick ids) = fire (runEvents evs) (Commit [])"
proof (intro conjI)
  show "suggestionEffect [] c = c\<lparr>currentSuggestion := [], cleanup := None\<rparr>"
    by (simp add: suggestionEffect_def)
  show "currentSuggestion (fire (runEvents evs) (Commit [])) = []"
    by (simp add: commit_fields del: fire.simps)
  show "cleanup (fire (runEvents evs) (Commit [])) = None"
    by (simp add: commit_fields del: fire.simps)
  show e: "intervals (fire (runEvents evs) (Commit [])) = Map.empty"
    by (simp add: commit_intervals [OF owned_run] del: fire.simps)
  show "foldl fire (fire (runEvents evs) (Commit [])) (map Tick ids) = fire (runEvents evs) (Commit [])"
    by (rule ticks_idle [OF e])
qed

theorem empty_list_is_steady_witness:
  "currentSuggestion (fire (runEvents [Commit [js ''a'', js ''b''], Tick 0]) (Commit [])) = [] \<and>
   intervals (fire (runEvents [Commit [js ''a'', js ''b''], Tick 0]) (Commit [])) = Map.empty \<and>
   foldl fire (fire (runEvents [Commit [js ''a'', js ''b''], Tick 0]) (Commit [])) (map Tick [0, 1, 2]) =
     fire (runEvents [Commit [js ''a'', js ''b''], Tick 0]) (Commit [])"
  using empty_list_is_steady
    [where evs = "[Commit [js ''a'', js ''b''], Tick 0]" and ids = "[0, 1, 2]"]
  by blast

section \<open>Submitting the form\<close>

lemma trim_js_empty_iff: "trim_js q = [] \<longleftrightarrow> (\<forall>c\<in>set q. isWhiteSpace c)"
proof
  assume "trim_js q = []"
  then have a: "\<forall>c\<in>set (dropWhile isWhiteSpace q). isWhiteSpace c"
    by (simp add: trim_js_def dropWhile_eq_Nil_conv)
  have "dropWhile isWhiteSpace q = []"
  proof (cases "dropWhile isWhiteSpace q")
    case Nil
    then show ?thesis .
  next
    case (Cons x xs)
    then have "\<not> isWhiteSpace x"
      using hd_dropWhile [of isWhiteSpace q] by simp
    moreover have "isWhiteSpace x" using a Cons by simp
    ultimately show ?thesis by simp
  qed
  then show "\<forall>c\<in>set q. isWhiteSpace c"
    by (simp add: dropWhile_eq_Nil_conv)
next
  assume "\<forall>c\<in>set q. isWhiteSpace c"
  then have d: "dropWhile isWhiteSpace q = []" by (simp add: dropWhile_eq_Nil_conv)
  show "trim_js q = []" unfolding trim_js_def d by simp
qed

text \<open>
  C8. Submitting the form calls \<^verbatim>\<open>onSendMessage\<close>, once and with the query, if and only
  if the query is not empty after trimming; then the query is cleared. For a query that is
  empty or holds white space only nothing is called and the query stays as it is; the
  handler has no other outcome, so no error is surfaced. The trimmed query is empty
  exactly when every code unit of the query is white space.
\<close>

theorem submit_iff_not_blank:
  "(sent (handleSubmit f) = sent f @ [query f] \<longleftrightarrow> trim_js (query f) \<noteq> []) \<and>
   (trim_js (query f) \<noteq> [] \<longrightarrow>
      handleSubmit f = f\<lparr>query := [], sent := sent f @ [query f], defaultPrevented := True\<rparr>) \<and>
   (trim_js (query f) = [] \<longrightarrow> handleSubmit f = f\<lparr>defaultPrevented := True\<rparr>) \<and>
   (trim_js (query f) = [] \<longleftrightarrow> (\<forall>c\<in>set (query f). isWhiteSpace c))"
  by (simp add: handleSubmit_def Let_def trim_js_empty_iff)

theorem submit_iff_not_blank_witness:
  "trim_js (query \<lparr>query = js ''hi '', sent = [], defaultPrevented = False\<rparr>) \<noteq> [] \<and>
   handleSubmit \<lparr>query = js ''hi '', sent = [], defaultPrevented = False\<rparr> =
     \<lparr>query = [], sent = [js ''hi ''], defaultPrevented = True\<rparr> \<and>
   trim_js (query \<lparr>query = js ''  '', sent = [], defaultPrevented = False\<rparr>) = [] \<and>
   handleSubmit \<lparr>query = js ''  '', sent = [], defaultPrevented = False\<rparr> =
     \<lparr>query = js ''  '', sent = [], defaultPrevented = True\<rparr>"
proof -
  let ?f = "\<lparr>query = js ''hi '', sent = [], defaultPrevented = False\<rparr>"
  let ?g = "\<lparr>query = js ''  '', sent = [], defaultPrevented = False\<rparr>"
  have h1: "trim_js (query ?f) \<noteq> []"
    by code_simp
  have h2: "trim_js (query ?g) = []"
    by code_simp
  have a: "handleSubmit ?f = ?f\<lparr>query := [], sent := sent ?f @ [query ?f], defaultPrevented := True\<rparr>"
    using submit_iff_not_blank [of ?f] h1 by blast
  have b: "handleSubmit ?g = ?g\<lparr>defaultPrevented := True\<rparr>"
    using submit_iff_not_blank [of ?g] h2 by blast
  from h1 h2 a b show ?thesis by simp
qed

section \<open>The first part of a message\<close>

lemma historyView_ok:
  "(\<exists>bs. historyView history = Inr bs) \<longleftrightarrow> (\<forall>m\<in>set history. parts m \<noteq> [])"
proof (induction history)
  case Nil
  show ?case by simp
next
  case (Cons m ms)
  show ?case
  proof (cases "parts m")
    case Nil
    then show ?thesis by (simp add: messageView_def)
  next
    case (Cons p ps)
    then obtain b where "messageView m = Inr b" by (simp add: messageView_def)
    with Cons Cons.IH show ?thesis
      by (cases "historyView ms") auto
  qed
qed

lemma historyView_throws:
  assumes "message \<in> set history" and "parts message = []"
  shows "historyView history = Inl TypeError"
  using assms
proof (induction history)
  case Nil
  then show ?case by simp
next
  case (Cons m ms)
  show ?case
  proof (cases "messageView m")
    case (Inl e)
    then show ?thesis by (cases e) simp
  next
    case (Inr b)
    then have "parts m \<noteq> []" by (auto simp: messageView_def)
    with Cons.prems have "message \<in> set ms" by auto
    with Cons have "historyView ms = Inl TypeError" by simp
    with Inr show ?thesis by simp
  qed
qed

text \<open>
  C10. The view reads the first part of every message without a check. Rendering the
  history gives a result exactly when every message has at least one part; for a message
  with no parts the access throws, and so does the rendering of any history that holds
  such a message. A message with a first part is rendered from the text of that part.
\<close>

theorem first_part_is_read_unchecked:
  "((\<exists>bs. historyView history = Inr bs) \<longleftrightarrow> (\<forall>m\<in>set history. parts m \<noteq> [])) \<and>
   (parts message = [] \<longrightarrow> messageView message = Inl TypeError) \<and>
   (message \<in> set history \<and> parts message = [] \<longrightarrow> historyView history = Inl TypeError) \<and>
   (parts message = p # ps \<longrightarrow>
      (\<exists>b. messageView message = Inr b \<and> body b = renderMarkdown (part_text p)))"
proof (intro conjI impI)
  show "(\<exists>bs. historyView history = Inr bs) \<longleftrightarrow> (\<forall>m\<in>set history. parts m \<noteq> [])"
    by (rule historyView_ok)
next
  assume "parts message = []"
  then show "messageView message = Inl TypeError" by (simp add: messageView_def)
next
  assume "message \<in> set history \<and> parts message = []"
  then show "historyView history = Inl TypeError"
    by (intro historyView_throws [of message]) simp_all
next
  assume "parts message = p # ps"
  then show "\<exists>b. messageView message = Inr b \<and> body b = renderMarkdown (part_text p)"
    by (simp add: messageView_def)
qed

theorem first_part_is_read_unchecked_witness:
  "parts \<lparr>role = model, parts = [], groundingChunks = None\<rparr> = [] \<and>
   messageView \<lparr>role = model, parts = [], groundingChunks = None\<rparr> = Inl TypeError \<and>
   historyView
     [\<lparr>role = user, parts = [\<lparr>part_text = js ''hi''\<rparr>], groundingChunks = None\<rparr>,
      \<lparr>role = model, parts = [], groundingChunks = None\<rparr>] = Inl TypeError \<and>
   (\<exists>b. messageView \<lparr>role = user, parts = [\<lparr>part_text = js ''hi''\<rparr>], groundingChunks = None\<rparr> = Inr b \<and>
        body b = renderMarkdown (part_text \<lparr>part_text = js ''hi''\<rparr>)) \<and>
   (\<exists>bs. historyView
      [\<lparr>role = user, parts = [\<lparr>part_text = js ''hi''\<rparr>], groundingChunks = None\<rparr>] = Inr bs)"
proof -
  let ?bad = "\<lparr>role = model, parts = [], groundingChunks = None\<rparr>"
  let ?good = "\<lparr>role = user, parts = [\<lparr>part_text = js ''hi''\<rparr>], groundingChunks = None\<rparr>"
  have h1: "parts ?bad = []" by simp
  have h2: "?bad \<in> set [?good, ?bad]" by simp
  have h3: "parts ?good = [\<lparr>part_text = js ''hi''\<rparr>]" by simp
  have h4: "\<forall>m\<in>set [?good]. parts m \<noteq> []" by simp
  note T = first_part_is_read_unchecked
    [where message = ?bad and history = "[?good, ?bad]"]
  note U = first_part_is_read_unchecked
    [where message = ?good and history = "[?good]" and p = "\<lparr>part_text = js ''hi''\<rparr>" and ps = "[]"]
  from T U h1 h2 h3 h4 show ?thesis by blast
qed

end
